theory Spec2Isabelle
  imports Main "HOL-Library.Word" "HOL-Library.AList"
begin

unbundle bit_operations_syntax

section \<open>The k1-pro driver (k1pro_python.py) as HOL functions\<close>

text \<open>
  The driver talks to a six-button, three-knob HID deck. Bytes are 8-bit words, byte
  strings are lists of them, Python \<open>int\<close>s that can be negative are \<open>int\<close>, lengths
  and protocol IDs are \<open>nat\<close>. Every \<open>raise\<close> of the source is a value of \<open>error\<close>.
\<close>

type_synonym byte = "8 word"
type_synonym bytes = "byte list"

datatype error =
    NotConnected
      \<comment> \<open>\<open>RuntimeError("Device not connected. Call connect() first.")\<close>\<close>
  | InvalidButtonIndex int
      \<comment> \<open>\<open>ValueError(f"Invalid button index: {button_index} (must be 0-5)")\<close>\<close>
  | DeviceNotFound
      \<comment> \<open>\<open>RuntimeError("k1-pro device not found ...")\<close>\<close>
  | ControlInterfaceNotFound
      \<comment> \<open>\<open>RuntimeError("Control interface not found")\<close>\<close>
  | ControlEndpointNotFound
      \<comment> \<open>\<open>RuntimeError("Control endpoint not found. Is the device connected?")\<close>\<close>
  | EventEndpointNotFound
      \<comment> \<open>\<open>RuntimeError("Event endpoint not found. Is the device connected?")\<close>\<close>
  | ControlOpenFailed
      \<comment> \<open>\<open>RuntimeError("Failed to open control device after 5 attempts: ...")\<close>\<close>
  | TransportError
      \<comment> \<open>whatever the HID library raises from \<open>device.write\<close>\<close>
  | IndexError
      \<comment> \<open>a list subscript out of range\<close>
  | ByteRangeError
      \<comment> \<open>\<open>ValueError\<close>: a bytearray item outside \<open>range(0, 256)\<close>\<close>

subsection \<open>Device constants\<close>

definition VENDOR_ID :: nat where "VENDOR_ID = 0x5548"
definition PRODUCT_ID :: nat where "PRODUCT_ID = 0x1025"
definition USAGE_PAGE :: nat where "USAGE_PAGE = 0xffa0"
definition REPORT_ID :: byte where "REPORT_ID = 0x04"
definition WRITE_SIZE :: nat where "WRITE_SIZE = 1024"
definition DATA_SIZE :: nat where "DATA_SIZE = 1023"

definition STP_COMMAND :: bytes where
  "STP_COMMAND = [0x43, 0x52, 0x54, 0x00, 0x00, 0x53, 0x54, 0x50, 0x00, 0x00]"
definition CONNECT_COMMAND :: bytes where
  "CONNECT_COMMAND = [0x43, 0x52, 0x54, 0x00, 0x00, 0x43, 0x4f, 0x4e, 0x4e, 0x45, 0x43, 0x54]"
definition CLE_COMMAND :: bytes where
  "CLE_COMMAND = [0x43, 0x52, 0x54, 0x00, 0x00, 0x43, 0x4c, 0x45, 0x00, 0x00, 0x00, 0xff]"
definition DIS_COMMAND :: bytes where
  "DIS_COMMAND = [0x43, 0x52, 0x54, 0x00, 0x00, 0x44, 0x49, 0x53, 0x00, 0x00]"
definition WAKE_COMMAND :: bytes where
  "WAKE_COMMAND = [0x43, 0x52, 0x54, 0x00, 0x00, 0x77, 0x61, 0x6b, 0x65, 0x00]"
definition LIG_COMMAND :: bytes where
  "LIG_COMMAND = [0x43, 0x52, 0x54, 0x00, 0x00, 0x4c, 0x49, 0x47, 0x00, 0x00, 0x00, 0x19]"
definition QUCMD_COMMAND :: bytes where
  "QUCMD_COMMAND = [0x43, 0x52, 0x54, 0x00, 0x00, 0x51, 0x55, 0x43, 0x4d, 0x44,
                    0x11, 0x11, 0x00, 0x11, 0x00, 0x11]"
definition CPOS_COMMAND :: bytes where
  "CPOS_COMMAND = [0x43, 0x52, 0x54, 0x00, 0x00, 0x43, 0x50, 0x4f, 0x53, 0x00, 0x4d]"

text \<open>The literal \<open>b'CRT\x00\x00BAT\x00\x00'\<close> of \<open>_send_jpeg_to_button\<close>.\<close>

definition BAT_PREFIX :: bytes where
  "BAT_PREFIX = [0x43, 0x52, 0x54, 0x00, 0x00, 0x42, 0x41, 0x54, 0x00, 0x00]"

text \<open>Button index (0-5) to protocol ID.\<close>

definition BUTTON_ID_MAP :: "nat list" where
  "BUTTON_ID_MAP = [5, 3, 1, 6, 4, 2]"

subsection \<open>Python list primitives\<close>

text \<open>
  \<open>xs[i]\<close>: a negative index counts from the end, an index outside the list raises
  \<open>IndexError\<close>.
\<close>

definition subscript :: "'a list \<Rightarrow> int \<Rightarrow> error + 'a" where
  "subscript xs i =
     (if 0 \<le> i \<and> i < int (length xs) then Inr (xs ! nat i)
      else if i < 0 \<and> - int (length xs) \<le> i then Inr (xs ! nat (int (length xs) + i))
      else Inl IndexError)"

text \<open>\<open>xs[a:b]\<close> for \<open>0 \<le> a \<le> b\<close>: both ends are clamped to the list.\<close>

definition slice :: "'a list \<Rightarrow> nat \<Rightarrow> nat \<Rightarrow> 'a list" where
  "slice xs a b = take (b - a) (drop a xs)"

text \<open>
  \<open>xs[a:b] = ys\<close> on a bytearray, for \<open>0 \<le> a \<le> b\<close>: the clamped slice is replaced by
  the whole of \<open>ys\<close>, so the array grows when \<open>ys\<close> is longer than the slice.
\<close>

definition slice_assign :: "'a list \<Rightarrow> nat \<Rightarrow> nat \<Rightarrow> 'a list \<Rightarrow> 'a list" where
  "slice_assign xs a b ys = take a xs @ ys @ drop (max a b) xs"

text \<open>
  \<open>range(start, stop, step)\<close> for a positive step. (Python raises on a zero step; the
  only step of the driver is \<open>DATA_SIZE\<close>.)
\<close>

function range_step :: "nat \<Rightarrow> nat \<Rightarrow> nat \<Rightarrow> nat list" where
  "range_step start stop step =
     (if step = 0 \<or> stop \<le> start then []
      else start # range_step (start + step) stop step)"
  by pat_completeness auto
termination
  by (relation "measure (\<lambda>(start, stop, step). stop - start)") auto

declare range_step.simps [simp del]

text \<open>\<open>xs.index(v)\<close>: the first position of \<open>v\<close>; \<open>None\<close> where Python raises.\<close>

fun index_of :: "'a list \<Rightarrow> 'a \<Rightarrow> nat option" where
  "index_of [] v = None"
| "index_of (x # xs) v = (if x = v then Some 0 else map_option Suc (index_of xs v))"

subsection \<open>Frame codec\<close>

text \<open>\<open>K1Pro._map_button_for_image\<close>: \<open>BUTTON_ID_MAP[button_index]\<close>.\<close>

definition map_button_for_image :: "int \<Rightarrow> error + nat" where
  "map_button_for_image button_index = subscript BUTTON_ID_MAP button_index"

text \<open>
  The packet \<open>_write_report\<close> hands to \<open>device.write\<close>: a zeroed bytearray of
  \<open>WRITE_SIZE\<close> bytes, the report ID at 0, the payload assigned to the slice
  \<open>[1 : 1 + len(payload)]\<close>.
\<close>

definition report_packet :: "bytes \<Rightarrow> bytes" where
  "report_packet payload =
     slice_assign ((replicate WRITE_SIZE 0)[0 := REPORT_ID]) 1 (1 + length payload) payload"

text \<open>
  The BAT header of \<open>_send_jpeg_to_button\<close> for \<open>size = sz\<close>: thirteen bytes, the
  prefix in \<open>[0:10]\<close>, \<open>(size >> 8) & 0xFF\<close>, \<open>size & 0xFF\<close>, then \<open>button_id\<close>, which
  a bytearray takes only inside \<open>range(0, 256)\<close>.
\<close>

definition bat_header :: "nat \<Rightarrow> nat \<Rightarrow> error + bytes" where
  "bat_header sz button_id =
     (let header = replicate 13 (0 :: byte);
          header = slice_assign header 0 10 BAT_PREFIX;
          header = header[10 := of_nat (drop_bit 8 sz AND 0xFF)];
          header = header[11 := of_nat (sz AND 0xFF)]
      in if button_id < 256 then Inr (header[12 := of_nat button_id])
         else Inl ByteRangeError)"

text \<open>
  The chunks of the upload loop:
  \<open>for i in range(0, len(jpeg_data), DATA_SIZE): chunk = jpeg_data[i:i + DATA_SIZE]\<close>.
\<close>

definition jpeg_chunks :: "bytes \<Rightarrow> bytes list" where
  "jpeg_chunks jpeg_data =
     map (\<lambda>i. slice jpeg_data i (i + DATA_SIZE)) (range_step 0 (length jpeg_data) DATA_SIZE)"

subsection \<open>The HID transport and the console\<close>

text \<open>
  The HID library is outside the driver. Here it is a record: the interface
  descriptors \<open>hid.enumerate\<close> returns, the outcomes of the coming \<open>open_path\<close> and
  \<open>write\<close> calls (\<open>True\<close>: the call returns, \<open>False\<close>: it raises; a call past the end of
  the list returns), and the trace of everything done so far. The control lock and
  \<open>print\<close> leave their marks in the same trace. Settle delays (\<open>time.sleep\<close>) are left
  out.
\<close>

record hid_info =
  vendor_id :: nat
  product_id :: nat
  usage_page :: nat
  usage :: nat
  path :: string

datatype message =
    LookingFor
      \<comment> \<open>\<open>"Looking for k1-pro (VID: ..., PID: ...)..."\<close>\<close>
  | FoundInterfaces nat
      \<comment> \<open>\<open>"Found {len(matching_devices)} matching interface(s)"\<close>\<close>
  | ConnectedInitialized
      \<comment> \<open>\<open>"k1-pro connected and initialized"\<close>\<close>
  | SkippingInvalid int
      \<comment> \<open>\<open>"Skipping invalid button index: {button_index}"\<close>\<close>
  | ButtonUpdated int nat nat
      \<comment> \<open>\<open>"Button {button_index + 1} updated ({idx + 1}/{len(images)})"\<close>, its three numbers\<close>
  | DeviceClosed
      \<comment> \<open>\<open>"Device closed"\<close>\<close>
  | RefreshFailed
      \<comment> \<open>\<open>"refresh failed: {e}"\<close>, printed by the event loop of \<open>main\<close>\<close>

datatype event =
    Acquire
      \<comment> \<open>entering \<open>with self._control_lock\<close>\<close>
  | Release
      \<comment> \<open>leaving it, by return or by exception\<close>
  | Opened string
  | OpenFailed string
  | Closed
  | Written bytes
  | WriteFailed bytes
  | Printed message

record hid_world =
  interfaces :: "hid_info list"
  open_results :: "bool list"
  write_results :: "bool list"
  trace :: "event list"

definition emit :: "event \<Rightarrow> hid_world \<Rightarrow> hid_world" where
  "emit e w = w\<lparr>trace := trace w @ [e]\<rparr>"

text \<open>\<open>hid.enumerate(vid, pid)\<close>; a zero argument matches every interface.\<close>

definition hid_enumerate :: "nat \<Rightarrow> nat \<Rightarrow> hid_world \<Rightarrow> hid_info list" where
  "hid_enumerate vid pid w =
     filter (\<lambda>d. (vid = 0 \<or> vendor_id d = vid) \<and> (pid = 0 \<or> product_id d = pid))
       (interfaces w)"

text \<open>\<open>device.open_path(p)\<close>: \<open>True\<close> when it returns, \<open>False\<close> when it raises \<open>OSError\<close>.\<close>

definition device_open_path :: "string \<Rightarrow> hid_world \<Rightarrow> bool \<times> hid_world" where
  "device_open_path p w =
     (case open_results w of
        [] \<Rightarrow> (True, emit (Opened p) w)
      | ok # rest \<Rightarrow>
          (ok, emit (if ok then Opened p else OpenFailed p) (w\<lparr>open_results := rest\<rparr>)))"

text \<open>\<open>device.write(packet)\<close>.\<close>

definition device_write :: "bytes \<Rightarrow> hid_world \<Rightarrow> (error + unit) \<times> hid_world" where
  "device_write packet w =
     (case write_results w of
        [] \<Rightarrow> (Inr (), emit (Written packet) w)
      | ok # rest \<Rightarrow>
          (if ok then (Inr (), emit (Written packet) (w\<lparr>write_results := rest\<rparr>))
           else (Inl TransportError, emit (WriteFailed packet) (w\<lparr>write_results := rest\<rparr>))))"

subsection \<open>The driver object\<close>

text \<open>
  The fields of \<open>K1Pro\<close> the sequential operations read and write. The cache
  \<open>_button_images\<close> is a Python dict: an association list in insertion order, where
  assigning to a key that is present keeps its place (\<open>AList.update\<close>).
\<close>

record k1pro =
  connected :: bool
  control_path :: "string option"
  event_path :: "string option"
  button_images :: "(int \<times> bytes) list"

text \<open>\<open>K1Pro.__init__\<close>.\<close>

definition K1Pro :: k1pro where
  "K1Pro = \<lparr>connected = False, control_path = None, event_path = None, button_images = []\<rparr>"

text \<open>\<open>not p\<close> for a path: \<open>None\<close> and the empty byte string are both false.\<close>

definition unset :: "string option \<Rightarrow> bool" where
  "unset p = (case p of None \<Rightarrow> True | Some q \<Rightarrow> q = [])"

text \<open>\<open>K1Pro._write_report\<close>.\<close>

definition write_report :: "bytes \<Rightarrow> hid_world \<Rightarrow> (error + unit) \<times> hid_world" where
  "write_report payload w = device_write (report_packet payload) w"

text \<open>A run of \<open>_write_report\<close> calls, one after the other: the first exception ends it.\<close>

fun write_reports :: "bytes list \<Rightarrow> hid_world \<Rightarrow> (error + unit) \<times> hid_world" where
  "write_reports [] w = (Inr (), w)"
| "write_reports (payload # rest) w =
     (case write_report payload w of
        (Inl e, w') \<Rightarrow> (Inl e, w')
      | (Inr _, w') \<Rightarrow> write_reports rest w')"

text \<open>
  The search loop of \<open>_open_control\<close> and \<open>_open_events\<close>: the path of the first
  interface of the device with the usage page and the given usage.
\<close>

definition find_endpoint :: "nat \<Rightarrow> hid_world \<Rightarrow> string option" where
  "find_endpoint u w =
     (case filter (\<lambda>dev. usage_page dev = USAGE_PAGE \<and> usage dev = u)
             (hid_enumerate VENDOR_ID PRODUCT_ID w) of
        [] \<Rightarrow> None
      | dev # _ \<Rightarrow> Some (path dev))"

text \<open>
  The retry loop of \<open>_open_control\<close>, with the number of attempts left: an attempt that
  raises \<open>OSError\<close> is followed by the next one, the last one by \<open>RuntimeError\<close>.
\<close>

fun open_attempts :: "nat \<Rightarrow> string \<Rightarrow> hid_world \<Rightarrow> (error + unit) \<times> hid_world" where
  "open_attempts 0 p w = (Inl ControlOpenFailed, w)"
| "open_attempts (Suc n) p w =
     (case device_open_path p w of
        (True, w') \<Rightarrow> (Inr (), w')
      | (False, w') \<Rightarrow> open_attempts n p w')"

text \<open>\<open>K1Pro._open_control\<close>, with \<open>max_retries = 5\<close>.\<close>

definition open_control :: "k1pro \<Rightarrow> hid_world \<Rightarrow> (error + unit) \<times> k1pro \<times> hid_world" where
  "open_control s w =
     (case (case control_path s of None \<Rightarrow> find_endpoint 1 w | Some p \<Rightarrow> Some p) of
        None \<Rightarrow> (Inl ControlEndpointNotFound, s, w)
      | Some p \<Rightarrow>
          (case open_attempts 5 p w of (r, w') \<Rightarrow> (r, s\<lparr>control_path := Some p\<rparr>, w')))"

text \<open>
  The frame every control operation shares:
  \<open>with self._control_lock: device = self._open_control(); try: body finally: device.close()\<close>.
\<close>

definition with_control ::
  "(hid_world \<Rightarrow> (error + unit) \<times> hid_world) \<Rightarrow> k1pro \<Rightarrow> hid_world
     \<Rightarrow> (error + unit) \<times> k1pro \<times> hid_world" where
  "with_control body s w =
     (case open_control s (emit Acquire w) of
        (Inl e, s1, w1) \<Rightarrow> (Inl e, s1, emit Release w1)
      | (Inr _, s1, w1) \<Rightarrow>
          (case body w1 of (r, w2) \<Rightarrow> (r, s1, emit Release (emit Closed w2))))"

text \<open>\<open>K1Pro.send_init\<close>.\<close>

definition send_init :: "k1pro \<Rightarrow> hid_world \<Rightarrow> (error + unit) \<times> k1pro \<times> hid_world" where
  "send_init s w =
     with_control
       (write_reports [DIS_COMMAND, WAKE_COMMAND, LIG_COMMAND, QUCMD_COMMAND, CPOS_COMMAND,
                       LIG_COMMAND, CLE_COMMAND, STP_COMMAND]) s w"

text \<open>The loop of \<open>connect\<close> over the matching interfaces: a later interface overwrites.\<close>

fun assign_paths :: "hid_info list \<Rightarrow> k1pro \<Rightarrow> k1pro" where
  "assign_paths [] s = s"
| "assign_paths (device # rest) s =
     assign_paths rest
       (if usage_page device = USAGE_PAGE then
          (if usage device = 1 then s\<lparr>control_path := Some (path device)\<rparr>
           else if usage device = 2 then s\<lparr>event_path := Some (path device)\<rparr>
           else s)
        else s)"

text \<open>\<open>K1Pro.connect\<close>.\<close>

definition connect :: "k1pro \<Rightarrow> hid_world \<Rightarrow> (error + unit) \<times> k1pro \<times> hid_world" where
  "connect s w =
     (let w0 = emit (Printed LookingFor) w;
          matching_devices =
            filter (\<lambda>d. vendor_id d = VENDOR_ID \<and> product_id d = PRODUCT_ID)
              (hid_enumerate 0 0 w)
      in if matching_devices = [] then (Inl DeviceNotFound, s, w0)
         else
           let w1 = emit (Printed (FoundInterfaces (length matching_devices))) w0;
               s1 = assign_paths matching_devices s
           in if unset (control_path s1) then (Inl ControlInterfaceNotFound, s1, w1)
              else
                (case send_init s1 w1 of
                   (Inl e, s2, w2) \<Rightarrow> (Inl e, s2, w2)
                 | (Inr _, s2, w2) \<Rightarrow>
                     (Inr (), s2\<lparr>connected := True\<rparr>, emit (Printed ConnectedInitialized) w2)))"

text \<open>\<open>K1Pro._send_jpeg_to_button\<close>: the header, a report per chunk, the STP command.\<close>

definition send_jpeg_to_button ::
  "nat \<Rightarrow> bytes \<Rightarrow> hid_world \<Rightarrow> (error + unit) \<times> hid_world" where
  "send_jpeg_to_button button_id jpeg_data w =
     (case bat_header (length jpeg_data) button_id of
        Inl e \<Rightarrow> (Inl e, w)
      | Inr header \<Rightarrow>
          (case write_report header w of
             (Inl e, w1) \<Rightarrow> (Inl e, w1)
           | (Inr _, w1) \<Rightarrow>
               (case write_reports (jpeg_chunks jpeg_data) w1 of
                  (Inl e, w2) \<Rightarrow> (Inl e, w2)
                | (Inr _, w2) \<Rightarrow> write_report STP_COMMAND w2)))"

text \<open>\<open>K1Pro.set_button_image\<close>.\<close>

definition set_button_image ::
  "int \<Rightarrow> bytes \<Rightarrow> k1pro \<Rightarrow> hid_world \<Rightarrow> (error + unit) \<times> k1pro \<times> hid_world" where
  "set_button_image button_index jpeg_data s w =
     (if \<not> connected s then (Inl NotConnected, s, w)
      else if \<not> (0 \<le> button_index \<and> button_index < 6)
      then (Inl (InvalidButtonIndex button_index), s, w)
      else
        let s1 = s\<lparr>button_images := AList.update button_index jpeg_data (button_images s)\<rparr>
        in case map_button_for_image button_index of
             Inl e \<Rightarrow> (Inl e, s1, w)
           | Inr button_id \<Rightarrow> with_control (send_jpeg_to_button button_id jpeg_data) s1 w)"

text \<open>
  The loop of \<open>set_multiple_images\<close> over \<open>enumerate(images)\<close>, with the position \<open>idx\<close>
  of the first item and \<open>len(images)\<close>.
\<close>

fun send_images ::
  "(int \<times> bytes) list \<Rightarrow> nat \<Rightarrow> nat \<Rightarrow> hid_world \<Rightarrow> (error + unit) \<times> hid_world" where
  "send_images [] idx n_images w = (Inr (), w)"
| "send_images ((button_index, jpeg_data) # rest) idx n_images w =
     (if \<not> (0 \<le> button_index \<and> button_index < 6)
      then send_images rest (Suc idx) n_images (emit (Printed (SkippingInvalid button_index)) w)
      else
        (case map_button_for_image button_index of
           Inl e \<Rightarrow> (Inl e, w)
         | Inr button_id \<Rightarrow>
             (case send_jpeg_to_button button_id jpeg_data w of
                (Inl e, w1) \<Rightarrow> (Inl e, w1)
              | (Inr _, w1) \<Rightarrow>
                  send_images rest (Suc idx) n_images
                    (emit (Printed (ButtonUpdated (button_index + 1) (idx + 1) n_images)) w1))))"

text \<open>\<open>K1Pro.set_multiple_images\<close>.\<close>

definition set_multiple_images ::
  "(int \<times> bytes) list \<Rightarrow> k1pro \<Rightarrow> hid_world \<Rightarrow> (error + unit) \<times> k1pro \<times> hid_world" where
  "set_multiple_images images s w =
     (if \<not> connected s then (Inl NotConnected, s, w)
      else with_control (send_images images 0 (length images)) s w)"

text \<open>The loop of \<open>refresh_images\<close> and of a keepalive cycle over the cached items.\<close>

fun send_cached :: "(int \<times> bytes) list \<Rightarrow> hid_world \<Rightarrow> (error + unit) \<times> hid_world" where
  "send_cached [] w = (Inr (), w)"
| "send_cached ((button_index, jpeg_data) # rest) w =
     (case map_button_for_image button_index of
        Inl e \<Rightarrow> (Inl e, w)
      | Inr button_id \<Rightarrow>
          (case send_jpeg_to_button button_id jpeg_data w of
             (Inl e, w1) \<Rightarrow> (Inl e, w1)
           | (Inr _, w1) \<Rightarrow> send_cached rest w1))"

text \<open>\<open>K1Pro.refresh_images\<close>.\<close>

definition refresh_images :: "k1pro \<Rightarrow> hid_world \<Rightarrow> (error + unit) \<times> k1pro \<times> hid_world" where
  "refresh_images s w =
     (if \<not> connected s then (Inr (), s, w)
      else with_control (send_cached (button_images s)) s w)"

text \<open>\<open>K1Pro.send_keepalive\<close>.\<close>

definition send_keepalive :: "k1pro \<Rightarrow> hid_world \<Rightarrow> (error + unit) \<times> k1pro \<times> hid_world" where
  "send_keepalive s w =
     (if \<not> connected s then (Inr (), s, w)
      else with_control (write_report CONNECT_COMMAND) s w)"

text \<open>
  One turn of the loop of \<open>_keepalive_loop\<close>, run on its own with the stop flag clear:
  the cached images are sent again, then the CONNECT heartbeat when it is due, and
  every exception is swallowed.
\<close>

definition keepalive_cycle :: "bool \<Rightarrow> k1pro \<Rightarrow> hid_world \<Rightarrow> k1pro \<times> hid_world" where
  "keepalive_cycle heartbeat_due s w =
     (if connected s \<and> button_images s \<noteq> [] then
        snd (with_control
               (\<lambda>w0. case send_cached (button_images s) w0 of
                        (Inl e, w1) \<Rightarrow> (Inl e, w1)
                      | (Inr _, w1) \<Rightarrow>
                          (if heartbeat_due then write_report CONNECT_COMMAND w1
                           else (Inr (), w1)))
               s w)
      else (s, w))"

text \<open>\<open>K1Pro.close\<close>, without the join of the keepalive thread.\<close>

definition close :: "k1pro \<Rightarrow> hid_world \<Rightarrow> k1pro \<times> hid_world" where
  "close s w = (s\<lparr>connected := False\<rparr>, emit (Printed DeviceClosed) w)"

subsection \<open>Inbound reports\<close>

text \<open>
  \<open>K1Pro.read_button_event\<close> on an event device the caller has opened; \<open>data\<close> is
  what \<open>event_device.read\<close> returned (empty on a timeout).
\<close>

definition read_button_event :: "bytes \<Rightarrow> (byte \<times> bool) option" where
  "read_button_event data =
     (if data = [] \<or> length data < 2 then None
      else Some (data ! 0, data ! 1 = 1))"

text \<open>
  The lines the event loop of \<open>main\<close> prints for a report. \<open>BUTTON i p\<close> is the line
  for \<open>phys_idx = i\<close>, pressed or released; the knob lines carry the knob number.
\<close>

datatype line =
    BUTTON nat bool
  | KNOB_TURN nat bool
      \<comment> \<open>the knob, and \<open>True\<close> for clockwise\<close>
  | KNOB_PRESSED nat
  | UNKNOWN byte byte
  | RELEASE
  | PRESS byte
  | RPT byte

text \<open>
  The body of the event loop of \<open>main\<close> for the report \<open>data\<close> it has read, on the
  driver object \<open>deck\<close>. The first component is the line it prints: \<open>Inr None\<close> when
  it prints none, \<open>Inl\<close> when a subscript raises. After the line \<open>RELEASE\<close> it calls
  \<open>deck.refresh_images()\<close> inside \<open>try ... except Exception\<close>: an exception of the
  refresh is swallowed and leaves the line \<open>refresh failed\<close> on the console.
\<close>

definition main_report ::
  "bytes \<Rightarrow> k1pro \<Rightarrow> hid_world \<Rightarrow> (error + line option) \<times> k1pro \<times> hid_world" where
  "main_report data deck w =
     (if data = [] \<or> length data < 2 then (Inr None, deck, w)
      else
        let report_id = data ! 0 in
        if report_id = 0x04 then
          (case subscript data 10 of
             Inl e \<Rightarrow> (Inl e, deck, w)
           | Inr control_id \<Rightarrow>
               (case subscript data 11 of
                  Inl e \<Rightarrow> (Inl e, deck, w)
                | Inr state \<Rightarrow>
                    (case index_of BUTTON_ID_MAP (unat control_id) of
                       Some phys_idx \<Rightarrow>
                         (if state = 1 then (Inr (Some (BUTTON phys_idx True)), deck, w)
                          else if state = 0 then (Inr (Some (BUTTON phys_idx False)), deck, w)
                          else (Inr None, deck, w))
                     | None \<Rightarrow>
                         (Inr (Some
                            (if control_id = 0x51 then KNOB_TURN 1 True
                             else if control_id = 0x50 then KNOB_TURN 1 False
                             else if control_id = 0x61 then KNOB_TURN 2 True
                             else if control_id = 0x60 then KNOB_TURN 2 False
                             else if control_id = 0x91 then KNOB_TURN 3 True
                             else if control_id = 0x90 then KNOB_TURN 3 False
                             else if control_id = 0x25 then KNOB_PRESSED 1
                             else if control_id = 0x30 then KNOB_PRESSED 2
                             else if control_id = 0x31 then KNOB_PRESSED 3
                             else UNKNOWN control_id state)), deck, w))))
        else if report_id = 0x01 then
          (let key_id = data ! 1 in
           if key_id = 0 then
             (case refresh_images deck w of
                (Inl e, deck', w') \<Rightarrow>
                  (Inr (Some RELEASE), deck', emit (Printed RefreshFailed) w')
              | (Inr u, deck', w') \<Rightarrow> (Inr (Some RELEASE), deck', w'))
           else (Inr (Some (PRESS key_id)), deck, w))
        else (Inr (Some (RPT report_id)), deck, w))"

subsection \<open>Observing a run\<close>

text \<open>The events a run added to the trace, from the worlds before and after it.\<close>

definition events_since :: "hid_world \<Rightarrow> hid_world \<Rightarrow> event list" where
  "events_since w w' = drop (length (trace w)) (trace w')"

text \<open>The packets the device took, in order.\<close>

fun written :: "event list \<Rightarrow> bytes list" where
  "written [] = []"
| "written (Written packet # evs) = packet # written evs"
| "written (e # evs) = written evs"

text \<open>The lines printed, in order.\<close>

fun printed :: "event list \<Rightarrow> message list" where
  "printed [] = []"
| "printed (Printed m # evs) = m # printed evs"
| "printed (e # evs) = printed evs"

text \<open>
  The lines a batch upload prints when nothing fails, one per item: the item was
  skipped, or it was sent. \<open>idx\<close> is the position of the first item, \<open>n\<close> is
  \<open>len(images)\<close>.
\<close>

fun batch_lines :: "(int \<times> bytes) list \<Rightarrow> nat \<Rightarrow> nat \<Rightarrow> message list" where
  "batch_lines [] idx n = []"
| "batch_lines ((button_index, jpeg_data) # rest) idx n =
     (if 0 \<le> button_index \<and> button_index < 6
      then ButtonUpdated (button_index + 1) (idx + 1) n
      else SkippingInvalid button_index) # batch_lines rest (Suc idx) n"

text \<open>A write that returned, or a line on the console.\<close>

fun quiet :: "event \<Rightarrow> bool" where
  "quiet (Written packet) = True"
| "quiet (Printed m) = True"
| "quiet e = False"

text \<open>An attempt to open a path (\<open>open_path\<close>).\<close>

fun open_try :: "event \<Rightarrow> bool" where
  "open_try (Opened p) = True"
| "open_try (OpenFailed p) = True"
| "open_try e = False"

text \<open>
  The events of a run of writes with result \<open>r\<close>: all quiet when it returned; when
  it raised, quiet up to the write that failed, which is the last event.
\<close>

definition run_events :: "error + unit \<Rightarrow> event list \<Rightarrow> bool" where
  "run_events r evs =
     (case r of
        Inr u \<Rightarrow> list_all quiet evs
      | Inl e \<Rightarrow>
          e = TransportError \<and> evs \<noteq> [] \<and> list_all quiet (butlast evs) \<and>
          (case last evs of WriteFailed packet \<Rightarrow> True | other \<Rightarrow> False))"

text \<open>The packets of one complete upload of an item with a valid button index.\<close>

definition item_packets :: "int \<times> bytes \<Rightarrow> bytes list" where
  "item_packets item =
     (case map_button_for_image (fst item) of
        Inl e \<Rightarrow> []
      | Inr button_id \<Rightarrow>
          (case bat_header (length (snd item)) button_id of
             Inl e \<Rightarrow> []
           | Inr header \<Rightarrow>
               map report_packet (header # jpeg_chunks (snd item) @ [STP_COMMAND])))"

subsection \<open>Concrete decks and transports\<close>

text \<open>A connected deck with a known control path and an empty cache.\<close>

definition ready_deck :: k1pro where
  "ready_deck = \<lparr>connected = True, control_path = Some ''ctl'', event_path = None, button_images = []\<rparr>"

text \<open>The same deck with an image cached for button 0.\<close>

definition cached_deck :: k1pro where
  "cached_deck =
     \<lparr>connected = True, control_path = Some ''ctl'', event_path = None,
      button_images = [(0, [1, 2])]\<rparr>"

text \<open>A transport on which the first write raises, and one that accepts everything.\<close>

definition first_write_fails :: hid_world where
  "first_write_fails = \<lparr>interfaces = [], open_results = [], write_results = [False], trace = []\<rparr>"

definition accepting :: hid_world where
  "accepting = \<lparr>interfaces = [], open_results = [], write_results = [], trace = []\<rparr>"

text \<open>A device that shows its control interface only.\<close>

definition control_only :: hid_world where
  "control_only =
     \<lparr>interfaces = [\<lparr>vendor_id = 0x5548, product_id = 0x1025, usage_page = 0xffa0,
                      usage = 1, path = ''ctl''\<rparr>],
      open_results = [], write_results = [], trace = []\<rparr>"

section \<open>Properties\<close>

subsection \<open>A transport that accepts every write\<close>

lemma write_report_ok:
  "write_results w = [] \<Longrightarrow>
     write_report payload w = (Inr (), w\<lparr>trace := trace w @ [Written (report_packet payload)]\<rparr>)"
  by (simp add: write_report_def device_write_def emit_def)

lemma write_reports_ok:
  "write_results w = [] \<Longrightarrow>
     write_reports ps w =
       (Inr (), w\<lparr>trace := trace w @ map (\<lambda>p. Written (report_packet p)) ps\<rparr>)"
proof (induction ps arbitrary: w)
  case Nil
  then show ?case by simp
next
  case (Cons p ps)
  then show ?case by (simp add: write_report_ok)
qed

lemma send_jpeg_to_button_ok:
  "write_results w = [] \<Longrightarrow> bat_header (length d) button_id = Inr header \<Longrightarrow>
     send_jpeg_to_button button_id d w =
       (Inr (), w\<lparr>trace := trace w @ Written (report_packet header) #
                   map (\<lambda>c. Written (report_packet c)) (jpeg_chunks d) @
                   [Written (report_packet STP_COMMAND)]\<rparr>)"
  by (simp add: send_jpeg_to_button_def write_report_ok write_reports_ok)

subsection \<open>The button table\<close>

lemma slots_enum: "{0..<6::nat} = {0, 1, 2, 3, 4, 5}"
  by auto

lemma ids_enum: "{1..6::nat} = {1, 2, 3, 4, 5, 6}"
  by auto

text \<open>
  C6. The table sends the slots 0..5 one-to-one onto the protocol IDs 1..6: the lookup
  of a slot and the reverse lookup of its ID (\<open>BUTTON_ID_MAP.index\<close>) undo each other,
  every ID from 1 to 6 is the ID of a slot, and so the ID of the slot of the ID of a
  slot is that ID again.
\<close>

theorem button_id_map_bijection:
  "bij_betw (\<lambda>s. BUTTON_ID_MAP ! s) {0..<6} {1..6} \<and>
   (\<forall>s\<in>{0..<6}. \<exists>p\<in>{1..6}.
      map_button_for_image (int s) = Inr p \<and> index_of BUTTON_ID_MAP p = Some s) \<and>
   (\<forall>p\<in>{1..6}. \<exists>s\<in>{0..<6}.
      index_of BUTTON_ID_MAP p = Some s \<and> map_button_for_image (int s) = Inr p) \<and>
   (\<forall>s\<in>{0..<6}. \<forall>p t.
      map_button_for_image (int s) = Inr p \<longrightarrow> index_of BUTTON_ID_MAP p = Some t \<longrightarrow>
      map_button_for_image (int t) = Inr p)"
proof (intro conjI)
  show "bij_betw (\<lambda>s. BUTTON_ID_MAP ! s) {0..<6} {1..6}"
    unfolding bij_betw_def slots_enum ids_enum
    by (auto simp add: BUTTON_ID_MAP_def inj_on_def)
  show "\<forall>s\<in>{0..<6}. \<exists>p\<in>{1..6}.
      map_button_for_image (int s) = Inr p \<and> index_of BUTTON_ID_MAP p = Some s"
    unfolding slots_enum
    by (simp add: BUTTON_ID_MAP_def map_button_for_image_def subscript_def)
  show "\<forall>p\<in>{1..6}. \<exists>s\<in>{0..<6}.
      index_of BUTTON_ID_MAP p = Some s \<and> map_button_for_image (int s) = Inr p"
    unfolding ids_enum
    by (simp add: BUTTON_ID_MAP_def map_button_for_image_def subscript_def)
  show "\<forall>s\<in>{0..<6}. \<forall>p t.
      map_button_for_image (int s) = Inr p \<longrightarrow> index_of BUTTON_ID_MAP p = Some t \<longrightarrow>
      map_button_for_image (int t) = Inr p"
    unfolding slots_enum
    by (auto simp add: BUTTON_ID_MAP_def map_button_for_image_def subscript_def)
qed

theorem button_id_map_bijection_witness:
  "map_button_for_image 2 = Inr 1 \<and> index_of BUTTON_ID_MAP 1 = Some 2"
proof -
  have "\<forall>s\<in>{0..<6}. \<exists>p\<in>{1..6}.
      map_button_for_image (int s) = Inr p \<and> index_of BUTTON_ID_MAP p = Some s"
    using button_id_map_bijection by (rule conjunct1 [OF conjunct2])
  moreover have "(2::nat) \<in> {0..<6}" by simp
  ultimately obtain p where
    p: "map_button_for_image (int 2) = Inr p" "index_of BUTTON_ID_MAP p = Some 2"
    by blast
  have "map_button_for_image (int 2) = Inr 1"
    by (simp add: BUTTON_ID_MAP_def map_button_for_image_def subscript_def)
  with p have "p = 1" by simp
  with p show ?thesis by simp
qed

subsection \<open>Report packets\<close>

lemma report_packet_eq:
  "report_packet payload = REPORT_ID # payload @ replicate (1023 - length payload) 0"
proof -
  have "(replicate WRITE_SIZE (0::byte))[0 := REPORT_ID] = REPORT_ID # replicate 1023 0"
  proof -
    have "WRITE_SIZE = Suc 1023" by (simp add: WRITE_SIZE_def)
    show ?thesis unfolding \<open>WRITE_SIZE = Suc 1023\<close> replicate_Suc list_update_code by (rule refl)
  qed
  then show ?thesis
    by (simp add: report_packet_def slice_assign_def max_def)
qed

text \<open>
  C4, amended. A payload of at most 1023 bytes gives a packet of exactly 1024 bytes:
  the report ID 4, the payload in order, zeros to the end. A longer payload is not
  rejected: the slice assignment grows the bytearray, the packet is the report ID
  followed by the whole payload, one byte longer than the payload, and it is handed
  to the device like any other.
\<close>

theorem report_packet_layout:
  "(length payload \<le> 1023 \<longrightarrow>
      length (report_packet payload) = 1024 \<and>
      report_packet payload = 4 # payload @ replicate (1023 - length payload) 0) \<and>
   (1023 < length payload \<longrightarrow>
      length (report_packet payload) = 1 + length payload \<and>
      report_packet payload = 4 # payload \<and>
      (write_results w = [] \<longrightarrow>
         write_report payload w = (Inr (), emit (Written (4 # payload)) w)))"
  by (simp add: report_packet_eq REPORT_ID_def write_report_ok emit_def)

theorem report_packet_layout_witness:
  "report_packet [1, 2, 3] = 4 # [1, 2, 3] @ replicate 1020 0 \<and>
   length (report_packet [1, 2, 3]) = 1024 \<and>
   report_packet (replicate 1024 1) = 4 # replicate 1024 1"
  using report_packet_layout [of "[1, 2, 3]"] report_packet_layout [of "replicate 1024 1"]
  by simp

text \<open>
  C4 as stated fails: a payload of 1024 bytes raises nothing, and a packet of 1025
  bytes is written.
\<close>

theorem report_packet_oversize_counterexample:
  "write_report (replicate 1024 1)
     \<lparr>interfaces = [], open_results = [], write_results = [], trace = []\<rparr> =
     (Inr (), \<lparr>interfaces = [], open_results = [], write_results = [],
               trace = [Written (4 # replicate 1024 1)]\<rparr>) \<and>
   length (4 # replicate 1024 (1 :: byte)) = 1025"
  by (simp add: write_report_ok report_packet_eq REPORT_ID_def)

subsection \<open>The image header\<close>

lemma bat_header_eq:
  "button_id < 256 \<Longrightarrow>
     bat_header sz button_id =
       Inr (BAT_PREFIX @ [of_nat (drop_bit 8 sz AND 0xFF), of_nat (sz AND 0xFF), of_nat button_id])"
  by (simp add: bat_header_def slice_assign_def BAT_PREFIX_def Let_def numeral_eq_Suc)

lemma and_255: "(n::nat) AND 0xFF = n mod 256"
proof -
  have "n AND mask 8 = n mod 2 ^ 8"
    by (simp only: take_bit_eq_mask [symmetric] take_bit_eq_mod)
  then show ?thesis by (simp add: mask_eq_exp_minus_1)
qed

lemma be16: "256 * unat (of_nat (drop_bit 8 sz AND 0xFF) :: byte) + unat (of_nat (sz AND 0xFF) :: byte) = sz mod 65536"
proof -
  have "unat (of_nat (drop_bit 8 sz AND 0xFF) :: byte) = sz div 256 mod 256"
    by (simp add: and_255 drop_bit_eq_div unat_of_nat)
  moreover have "unat (of_nat (sz AND 0xFF) :: byte) = sz mod 256"
    by (simp add: and_255 unat_of_nat)
  moreover have "256 * (sz div 256 mod 256) + sz mod 256 = sz mod 65536"
    using mod_mult2_eq [of sz 256 256] by simp
  ultimately show ?thesis by simp
qed

lemma byte_of_nat_mod: "(of_nat (n mod 256) :: byte) = of_nat n"
  by (simp add: word_of_nat_eq_iff take_bit_eq_mod)

text \<open>
  C7. For every size and every button ID a byte can hold (the protocol IDs are 1..6),
  the header is thirteen bytes: the ten bytes of the command prefix, the size as a
  big-endian 16-bit number (its low sixteen bits, the size itself below 65536), and
  the ID. For size 1500 and ID 3 the last three bytes are 0x05, 0xDC, 0x03.
\<close>

theorem bat_header_layout:
  "button_id < 256 \<Longrightarrow>
     bat_header sz button_id =
       Inr (BAT_PREFIX @ [of_nat (sz div 256), of_nat sz, of_nat button_id]) \<and>
     length BAT_PREFIX = 10 \<and>
     length (BAT_PREFIX @ [of_nat (sz div 256) :: byte, of_nat sz, of_nat button_id]) = 13 \<and>
     256 * unat (of_nat (sz div 256) :: byte) + unat (of_nat sz :: byte) = sz mod 65536 \<and>
     unat (of_nat button_id :: byte) = button_id"
proof -
  assume b: "button_id < 256"
  have hi: "(of_nat (drop_bit 8 sz AND 0xFF) :: byte) = of_nat (sz div 256)"
    by (simp add: and_255 drop_bit_eq_div byte_of_nat_mod)
  have lo: "(of_nat (sz AND 0xFF) :: byte) = of_nat sz"
    by (simp add: and_255 byte_of_nat_mod)
  have "unat (of_nat button_id :: byte) = button_id"
    using b by (simp add: unat_of_nat)
  moreover have "length BAT_PREFIX = 10" by (simp add: BAT_PREFIX_def)
  ultimately show ?thesis
    using bat_header_eq [OF b, of sz] be16 [of sz] by (simp add: hi lo)
qed

theorem bat_header_layout_witness:
  "(3 :: nat) < 256 \<and> bat_header 1500 3 = Inr (BAT_PREFIX @ [0x05, 0xDC, 0x03])"
  using bat_header_layout [of 3 1500] by simp

subsection \<open>Chunking\<close>

lemma range_step_empty: "0 < c \<Longrightarrow> range_step i n c = [] \<longleftrightarrow> n \<le> i"
  by (simp add: range_step.simps [of i n c])

lemma concat_chunks:
  "0 < c \<Longrightarrow> concat (map (\<lambda>j. slice d j (j + c)) (range_step i (length d) c)) = drop i d"
proof (induction i "length d" c rule: range_step.induct)
  case (1 start step)
  show ?case
  proof (cases "length d \<le> start")
    case True
    then show ?thesis by (simp add: range_step.simps [of start "length d" step])
  next
    case False
    have "slice d start (start + step) @ drop (start + step) d = drop start d"
      using append_take_drop_id [of step "drop start d"] by (simp add: slice_def add.commute)
    with 1 False show ?thesis by (simp add: range_step.simps [of start "length d" step])
  qed
qed

lemma length_range_step:
  "0 < c \<Longrightarrow> length (range_step i n c) = (n - i + (c - 1)) div c"
proof (induction i n c rule: range_step.induct)
  case (1 start stop step)
  show ?case
  proof (cases "stop \<le> start")
    case True
    with 1 show ?thesis by (simp add: range_step.simps [of start stop step])
  next
    case False
    then have lt: "start < stop" by simp
    define a where "a = stop - (start + step) + (step - 1)"
    define b where "b = stop - start + (step - 1)"
    have "Suc (a div step) = b div step"
    proof (cases "start + step \<le> stop")
      case True
      then have "b = a + step" by (simp add: a_def b_def)
      moreover have "(a + step) div step = a div step + 1"
        using 1(2) by (intro div_add_self2) simp
      ultimately show ?thesis by simp
    next
      case False
      with lt 1(2) have "a < step" and "step \<le> b" and "b - step < step"
        by (simp_all add: a_def b_def)
      then have "a div step = 0" and "(b - step) div step = 0"
        by simp_all
      moreover have "b div step = Suc ((b - step) div step)"
        using 1(2) \<open>step \<le> b\<close> by (rule le_div_geq)
      ultimately show ?thesis by simp
    qed
    then have "Suc ((stop - (start + step) + (step - 1)) div step) =
        (stop - start + (step - 1)) div step"
      by (simp only: a_def b_def)
    with 1 False show ?thesis by (simp add: range_step.simps [of start stop step])
  qed
qed

lemma butlast_chunks:
  "0 < c \<Longrightarrow> x \<in> set (butlast (map (\<lambda>j. slice d j (j + c)) (range_step i (length d) c)))
     \<Longrightarrow> length x = c"
proof (induction i "length d" c arbitrary: x rule: range_step.induct)
  case (1 start step)
  note unfold = range_step.simps [of start "length d" step]
  show ?case
  proof (cases "length d \<le> start")
    case True
    with 1(3) show ?thesis by (simp add: unfold)
  next
    case False
    show ?thesis
    proof (cases "length d \<le> start + step")
      case True
      with False 1(2,3) show ?thesis by (simp add: unfold range_step_empty)
    next
      case far: False
      with False 1(2,3) have "x = slice d start (start + step) \<or>
          x \<in> set (butlast (map (\<lambda>j. slice d j (j + step))
                       (range_step (start + step) (length d) step)))"
        by (simp add: unfold range_step_empty split: if_splits)
      then show ?thesis
      proof
        assume "x = slice d start (start + step)"
        with far show ?thesis by (simp add: slice_def)
      next
        assume rest: "x \<in> set (butlast (map (\<lambda>j. slice d j (j + step))
                                   (range_step (start + step) (length d) step)))"
        from False 1(2) have "\<not> (step = 0 \<or> length d \<le> start)" by simp
        then show ?thesis using 1(2) rest by (rule 1(1))
      qed
    qed
  qed
qed

lemma last_chunk:
  "0 < c \<Longrightarrow> i < length d \<Longrightarrow>
     0 < length (last (map (\<lambda>j. slice d j (j + c)) (range_step i (length d) c))) \<and>
     length (last (map (\<lambda>j. slice d j (j + c)) (range_step i (length d) c))) \<le> c"
proof (induction i "length d" c rule: range_step.induct)
  case (1 start step)
  note unfold = range_step.simps [of start "length d" step]
  show ?case
  proof (cases "length d \<le> start + step")
    case True
    with 1(2,3) show ?thesis by (simp add: unfold range_step_empty slice_def)
  next
    case False
    with 1 show ?thesis by (simp add: unfold range_step_empty)
  qed
qed

text \<open>
  C5. An image of length L is cut into \<open>\<lceil>L / 1023\<rceil>\<close> chunks; every chunk but the
  last has 1023 bytes, the last has between 1 and 1023; the chunks put together in
  order are the image; and an upload on a transport that accepts every write sends
  the header, then one report per chunk in that order, then the STP command.
\<close>

theorem jpeg_chunks_partition:
  "length (jpeg_chunks d) = (length d + 1022) div 1023 \<and>
   concat (jpeg_chunks d) = d \<and>
   (\<forall>c\<in>set (butlast (jpeg_chunks d)). length c = 1023) \<and>
   (d \<noteq> [] \<longrightarrow>
      0 < length (last (jpeg_chunks d)) \<and> length (last (jpeg_chunks d)) \<le> 1023) \<and>
   (\<forall>button_id header w.
      write_results w = [] \<longrightarrow> bat_header (length d) button_id = Inr header \<longrightarrow>
      send_jpeg_to_button button_id d w =
        (Inr (), w\<lparr>trace := trace w @ Written (report_packet header) #
                    map (\<lambda>c. Written (report_packet c)) (jpeg_chunks d) @
                    [Written (report_packet STP_COMMAND)]\<rparr>))"
proof (intro conjI)
  show "length (jpeg_chunks d) = (length d + 1022) div 1023"
    by (simp add: jpeg_chunks_def DATA_SIZE_def length_range_step)
  show "concat (jpeg_chunks d) = d"
    using concat_chunks [of DATA_SIZE d 0] by (simp add: jpeg_chunks_def DATA_SIZE_def)
  show "\<forall>c\<in>set (butlast (jpeg_chunks d)). length c = 1023"
    using butlast_chunks [of DATA_SIZE _ d 0]
    by (simp add: jpeg_chunks_def DATA_SIZE_def)
  show "d \<noteq> [] \<longrightarrow>
      0 < length (last (jpeg_chunks d)) \<and> length (last (jpeg_chunks d)) \<le> 1023"
    using last_chunk [of DATA_SIZE 0 d]
    by (simp add: jpeg_chunks_def DATA_SIZE_def)
  show "\<forall>button_id header w.
      write_results w = [] \<longrightarrow> bat_header (length d) button_id = Inr header \<longrightarrow>
      send_jpeg_to_button button_id d w =
        (Inr (), w\<lparr>trace := trace w @ Written (report_packet header) #
                    map (\<lambda>c. Written (report_packet c)) (jpeg_chunks d) @
                    [Written (report_packet STP_COMMAND)]\<rparr>)"
    by (simp add: send_jpeg_to_button_ok)
qed

theorem jpeg_chunks_partition_witness:
  "length (jpeg_chunks (replicate 2000 7)) = 2 \<and>
   concat (jpeg_chunks (replicate 2000 7)) = replicate 2000 7 \<and>
   0 < length (last (jpeg_chunks (replicate 2000 7)))"
  using jpeg_chunks_partition [of "replicate 2000 7"] by simp


subsection \<open>Runs under the control lock\<close>

lemma emit_fields [simp]:
  "interfaces (emit e w) = interfaces w"
  "open_results (emit e w) = open_results w"
  "write_results (emit e w) = write_results w"
  "trace (emit e w) = trace w @ [e]"
  by (simp_all add: emit_def)

lemma run_events_append:
  "list_all quiet evs1 \<Longrightarrow> run_events r evs2 \<Longrightarrow> run_events r (evs1 @ evs2)"
  by (cases r) (auto simp add: run_events_def butlast_append)

lemma run_events_Inr: "run_events (Inr u) evs \<longleftrightarrow> list_all quiet evs"
  by (simp add: run_events_def)

lemma write_report_events:
  "write_report payload w = (r, w') \<Longrightarrow> \<exists>evs. trace w' = trace w @ evs \<and> run_events r evs"
  by (auto simp add: write_report_def device_write_def run_events_def
      split: list.splits if_splits)

lemma write_reports_events:
  "write_reports ps w = (r, w') \<Longrightarrow> \<exists>evs. trace w' = trace w @ evs \<and> run_events r evs"
proof (induction ps arbitrary: w)
  case Nil
  then show ?case by (auto simp add: run_events_def)
next
  case (Cons p ps)
  obtain r1 w1 where step: "write_report p w = (r1, w1)" by (cases "write_report p w")
  from write_report_events [OF step] obtain evs1 where
    e1: "trace w1 = trace w @ evs1" "run_events r1 evs1" by blast
  show ?case
  proof (cases r1)
    case (Inl e)
    with Cons.prems step e1 show ?thesis by auto
  next
    case (Inr u)
    with Cons.prems step have "write_reports ps w1 = (r, w')" by simp
    from Cons.IH [OF this] obtain evs2 where
      e2: "trace w' = trace w1 @ evs2" "run_events r evs2" by blast
    from e1 Inr have "list_all quiet evs1" by (simp add: run_events_Inr)
    with e2 have "run_events r (evs1 @ evs2)" by (simp add: run_events_append)
    with e1 e2 show ?thesis by auto
  qed
qed

lemma write_reports_append:
  "write_reports (ps @ qs) w =
     (case write_reports ps w of
        (Inl e, w') \<Rightarrow> (Inl e, w')
      | (Inr u, w') \<Rightarrow> write_reports qs w')"
  by (induction ps arbitrary: w) (auto split: prod.splits sum.splits)

lemma send_jpeg_as_reports:
  "bat_header (length d) button_id = Inr header \<Longrightarrow>
     send_jpeg_to_button button_id d w = write_reports (header # jpeg_chunks d @ [STP_COMMAND]) w"
  by (auto simp add: send_jpeg_to_button_def write_reports_append split: prod.splits sum.splits)

lemma map_button_valid:
  "0 \<le> i \<Longrightarrow> i < 6 \<Longrightarrow> \<exists>button_id. map_button_for_image i = Inr button_id \<and> button_id < 256"
proof -
  assume "0 \<le> i" "i < 6"
  then have "i = 0 \<or> i = 1 \<or> i = 2 \<or> i = 3 \<or> i = 4 \<or> i = 5" by arith
  then show ?thesis
    by (auto simp add: map_button_for_image_def subscript_def BUTTON_ID_MAP_def)
qed

lemma map_button_values:
  "map_button_for_image 0 = Inr 5" "map_button_for_image 1 = Inr 3"
  "map_button_for_image 2 = Inr 1" "map_button_for_image 3 = Inr 6"
  "map_button_for_image 4 = Inr 4" "map_button_for_image 5 = Inr 2"
  by (simp_all add: map_button_for_image_def subscript_def BUTTON_ID_MAP_def)

lemma bat_header_Inr: "button_id < 256 \<Longrightarrow> \<exists>header. bat_header sz button_id = Inr header"
  by (simp add: bat_header_def Let_def)

lemma bat_header_bytes:
  "button_id < 256 \<Longrightarrow>
     bat_header sz button_id = Inr (BAT_PREFIX @ [of_nat (sz div 256), of_nat sz, of_nat button_id])"
  using bat_header_eq [of button_id sz]
  by (simp add: and_255 drop_bit_eq_div byte_of_nat_mod)

lemma send_jpeg_events:
  "button_id < 256 \<Longrightarrow> send_jpeg_to_button button_id d w = (r, w') \<Longrightarrow>
     \<exists>evs. trace w' = trace w @ evs \<and> run_events r evs"
proof -
  assume b: "button_id < 256" and run: "send_jpeg_to_button button_id d w = (r, w')"
  from bat_header_Inr [OF b] obtain header where "bat_header (length d) button_id = Inr header"
    by blast
  from send_jpeg_as_reports [OF this] run
  have "write_reports (header # jpeg_chunks d @ [STP_COMMAND]) w = (r, w')" by simp
  then show ?thesis by (rule write_reports_events)
qed

lemma send_images_events:
  "send_images images idx n w = (r, w') \<Longrightarrow>
     \<exists>evs. trace w' = trace w @ evs \<and> run_events r evs"
proof (induction images idx n w rule: send_images.induct)
  case (1 idx n w)
  then show ?case by (auto simp add: run_events_def)
next
  case (2 button_index jpeg_data rest idx n w)
  show ?case
  proof (cases "0 \<le> button_index \<and> button_index < 6")
    case False
    let ?w1 = "emit (Printed (SkippingInvalid button_index)) w"
    from False "2.prems" have "send_images rest (Suc idx) n ?w1 = (r, w')" by simp
    from "2.IH"(1) [OF False this] obtain evs where
      "trace w' = trace ?w1 @ evs" "run_events r evs" by blast
    then have "trace w' = trace w @ (Printed (SkippingInvalid button_index) # evs)"
      and "run_events r (Printed (SkippingInvalid button_index) # evs)"
      using run_events_append [of "[Printed (SkippingInvalid button_index)]" r evs]
      by simp_all
    then show ?thesis by blast
  next
    case True
    then have valid: "\<not> \<not> (0 \<le> button_index \<and> button_index < 6)" by simp
    from True map_button_valid obtain button_id where
      id: "map_button_for_image button_index = Inr button_id" "button_id < 256" by blast
    obtain r1 w1 where step: "send_jpeg_to_button button_id jpeg_data w = (r1, w1)"
      by (cases "send_jpeg_to_button button_id jpeg_data w")
    from send_jpeg_events [OF id(2) step] obtain evs1 where
      e1: "trace w1 = trace w @ evs1" "run_events r1 evs1" by blast
    show ?thesis
    proof (cases r1)
      case (Inl e)
      with "2.prems" True id step e1 show ?thesis by auto
    next
      case (Inr u)
      let ?m = "Printed (ButtonUpdated (button_index + 1) (idx + 1) n)"
      from Inr "2.prems" True id step
      have run: "send_images rest (Suc idx) n (emit ?m w1) = (r, w')" by simp
      from step Inr have step': "(Inr u, w1) = send_jpeg_to_button button_id jpeg_data w" by simp
      from "2.IH"(2) [OF valid id(1) step' refl run] obtain evs2 where
        e2: "trace w' = trace (emit ?m w1) @ evs2" "run_events r evs2" by blast
      from e1 Inr have "list_all quiet (evs1 @ [?m])" by (simp add: run_events_Inr)
      with e2 have "run_events r ((evs1 @ [?m]) @ evs2)" by (rule_tac run_events_append)
      moreover from e1 e2 have "trace w' = trace w @ ((evs1 @ [?m]) @ evs2)" by simp
      ultimately show ?thesis by blast
    qed
  qed
qed

lemma open_attempts_events:
  "open_attempts n p w = (r, w') \<Longrightarrow>
     \<exists>os. trace w' = trace w @ os \<and> list_all open_try os \<and>
          (r = Inr () \<or> r = Inl ControlOpenFailed)"
proof (induction n arbitrary: w)
  case 0
  then show ?case by auto
next
  case (Suc n)
  obtain ok w1 where step: "device_open_path p w = (ok, w1)" by (cases "device_open_path p w")
  then have e1: "\<exists>e. trace w1 = trace w @ [e] \<and> open_try e"
    by (auto simp add: device_open_path_def split: list.splits)
  show ?case
  proof (cases ok)
    case True
    with Suc.prems step e1 show ?thesis by auto
  next
    case False
    with Suc.prems step have "open_attempts n p w1 = (r, w')" by simp
    from Suc.IH [OF this] obtain os where
      "trace w' = trace w1 @ os" "list_all open_try os" "r = Inr () \<or> r = Inl ControlOpenFailed"
      by blast
    moreover from e1 obtain e where "trace w1 = trace w @ [e]" "open_try e" by blast
    ultimately have "trace w' = trace w @ (e # os)" "list_all open_try (e # os)" by simp_all
    with \<open>r = Inr () \<or> r = Inl ControlOpenFailed\<close> show ?thesis by blast
  qed
qed

lemma open_control_events:
  "open_control s w = (r, s', w') \<Longrightarrow>
     \<exists>os. trace w' = trace w @ os \<and> list_all open_try os \<and>
          (r = Inr () \<or> r = Inl ControlOpenFailed \<or> r = Inl ControlEndpointNotFound)"
proof (cases "case control_path s of None \<Rightarrow> find_endpoint 1 w | Some p \<Rightarrow> Some p")
  case None
  assume "open_control s w = (r, s', w')"
  with None have "trace w' = trace w @ []" "r = Inl ControlEndpointNotFound"
    by (simp_all add: open_control_def)
  then show ?thesis by (intro exI [of _ "[]"]) simp
next
  case (Some p)
  assume "open_control s w = (r, s', w')"
  with Some have "open_attempts 5 p w = (r, w')"
    by (simp add: open_control_def split: prod.splits)
  from open_attempts_events [OF this] show ?thesis by blast
qed

lemma open_control_frame:
  "open_control s w = (r, s', w') \<Longrightarrow>
     button_images s' = button_images s \<and> connected s' = connected s \<and>
     event_path s' = event_path s \<and> (control_path s \<noteq> None \<longrightarrow> s' = s)"
  by (auto simp add: open_control_def split: option.splits prod.splits)

lemma open_control_known:
  "control_path s = Some p \<Longrightarrow> open_results w = [] \<Longrightarrow>
     open_control s w = (Inr (), s, emit (Opened p) w)"
  by (simp add: open_control_def device_open_path_def numeral_eq_Suc)

lemma with_control_frame:
  "with_control body s w = (r, s', w') \<Longrightarrow>
     button_images s' = button_images s \<and> connected s' = connected s \<and>
     event_path s' = event_path s \<and> (control_path s \<noteq> None \<longrightarrow> s' = s)"
proof -
  assume run: "with_control body s w = (r, s', w')"
  obtain r1 s1 w1 where oc: "open_control s (emit Acquire w) = (r1, s1, w1)"
    by (cases "open_control s (emit Acquire w)")
  with run have "s' = s1"
    by (auto simp add: with_control_def split: sum.splits prod.splits)
  with open_control_frame [OF oc] show ?thesis by simp
qed

lemma with_control_shape:
  assumes body: "\<And>w1 r1 w2. body w1 = (r1, w2) \<Longrightarrow> \<exists>evs. trace w2 = trace w1 @ evs \<and> P r1 evs"
    and run: "with_control body s w = (r, s', w')"
  shows "\<exists>os bs. list_all open_try os \<and>
           (events_since w w' = Acquire # os @ [Release] \<and>
              (r = Inl ControlOpenFailed \<or> r = Inl ControlEndpointNotFound) \<or>
            events_since w w' = Acquire # os @ bs @ [Closed, Release] \<and> P r bs)"
proof -
  obtain r1 s1 w1 where oc: "open_control s (emit Acquire w) = (r1, s1, w1)"
    by (cases "open_control s (emit Acquire w)")
  from open_control_events [OF oc] obtain os where
    os: "trace w1 = trace w @ Acquire # os" "list_all open_try os"
      "r1 = Inr () \<or> r1 = Inl ControlOpenFailed \<or> r1 = Inl ControlEndpointNotFound"
    by auto
  show ?thesis
  proof (cases r1)
    case (Inl e)
    with run oc have "r = r1" "w' = emit Release w1"
      by (simp_all add: with_control_def)
    with os Inl have "events_since w w' = Acquire # os @ [Release]"
      "r = Inl ControlOpenFailed \<or> r = Inl ControlEndpointNotFound"
      by (simp_all add: events_since_def)
    with os(2) show ?thesis by blast
  next
    case (Inr u)
    obtain r2 w2 where b: "body w1 = (r2, w2)" by (cases "body w1")
    from body [OF b] obtain bs where bs: "trace w2 = trace w1 @ bs" "P r2 bs" by blast
    from run oc Inr b have "r = r2" "w' = emit Release (emit Closed w2)"
      by (simp_all add: with_control_def)
    with os bs have "events_since w w' = Acquire # os @ bs @ [Closed, Release]" "P r bs"
      by (simp_all add: events_since_def)
    with os(2) show ?thesis by blast
  qed
qed

lemma count_open_try:
  "list_all open_try os \<Longrightarrow> count_list os Acquire = 0 \<and> count_list os Release = 0"
  by (induction os) auto

lemma count_quiet:
  "list_all quiet evs \<Longrightarrow> count_list evs Acquire = 0 \<and> count_list evs Release = 0"
  by (induction evs) auto

lemma count_run_events:
  "run_events r evs \<Longrightarrow> count_list evs Acquire = 0 \<and> count_list evs Release = 0"
proof (cases r)
  case (Inr u)
  assume "run_events r evs"
  with Inr show ?thesis by (simp add: run_events_def count_quiet)
next
  case (Inl e)
  assume "run_events r evs"
  with Inl have ne: "evs \<noteq> []" and q: "list_all quiet (butlast evs)"
    and l: "\<exists>p. last evs = WriteFailed p"
    by (auto simp add: run_events_def split: event.splits)
  from ne have "evs = butlast evs @ [last evs]" by simp
  then have "count_list evs Acquire = count_list (butlast evs) Acquire + count_list [last evs] Acquire"
    and "count_list evs Release = count_list (butlast evs) Release + count_list [last evs] Release"
    by (metis count_list_append)+
  with count_quiet [OF q] l show ?thesis by auto
qed

lemma failed_write_last:
  "run_events r evs \<Longrightarrow> WriteFailed p \<in> set evs \<Longrightarrow>
     r = Inl TransportError \<and> (\<exists>pre. evs = pre @ [WriteFailed p])"
proof (cases r)
  case (Inr u)
  assume "run_events r evs" "WriteFailed p \<in> set evs"
  with Inr have "quiet (WriteFailed p)" by (auto simp add: run_events_def list_all_iff)
  then show ?thesis by simp
next
  case (Inl e)
  assume re: "run_events r evs" and mem: "WriteFailed p \<in> set evs"
  with Inl have ne: "evs \<noteq> []" and q: "list_all quiet (butlast evs)"
    and l: "\<exists>p'. last evs = WriteFailed p'" and e: "e = TransportError"
    by (auto simp add: run_events_def split: event.splits)
  from ne have split: "evs = butlast evs @ [last evs]" by simp
  from q have "WriteFailed p \<notin> set (butlast evs)" by (auto simp add: list_all_iff)
  with mem split have "last evs = WriteFailed p"
    by (metis Un_iff empty_iff empty_set set_ConsD set_append)
  with split Inl e show ?thesis by metis
qed

lemma locked_counts:
  assumes "list_all open_try os"
    and "evs = Acquire # os @ [Release] \<or> evs = Acquire # os @ bs @ [Closed, Release] \<and> run_events r bs"
  shows "count_list evs Acquire = 1 \<and> count_list evs Release = 1 \<and>
         hd evs = Acquire \<and> last evs = Release"
  using assms count_open_try [of os] count_run_events [of r bs] by auto

lemma locked_failed_write:
  assumes "list_all open_try os" and "WriteFailed p \<in> set evs"
    and "evs = Acquire # os @ [Release] \<and> (r = Inl ControlOpenFailed \<or> r = Inl ControlEndpointNotFound) \<or>
         evs = Acquire # os @ bs @ [Closed, Release] \<and> run_events r bs"
  shows "r = Inl TransportError \<and> (\<exists>pre. evs = pre @ [WriteFailed p, Closed, Release])"
proof -
  from assms(1) have no: "WriteFailed p \<notin> set os" by (auto simp add: list_all_iff)
  with assms(2,3) have shape: "evs = Acquire # os @ bs @ [Closed, Release]" "run_events r bs"
    and "WriteFailed p \<in> set bs" by auto
  from failed_write_last [OF shape(2) this(3)] obtain pre where
    "r = Inl TransportError" "bs = pre @ [WriteFailed p]" by blast
  with shape(1) have "r = Inl TransportError" "evs = (Acquire # os @ pre) @ [WriteFailed p, Closed, Release]"
    by simp_all
  then show ?thesis by blast
qed

lemma written_append: "written (evs1 @ evs2) = written evs1 @ written evs2"
  by (induction evs1 rule: written.induct) simp_all

lemma written_map: "written (map (\<lambda>p. Written (f p)) ps) = map f ps"
  by (induction ps) simp_all

lemma written_open_try: "list_all open_try os \<Longrightarrow> written os = []"
  by (induction os rule: written.induct) simp_all

lemma write_report_Inr_trace:
  "write_report payload w = (Inr u, w') \<Longrightarrow> trace w' = trace w @ [Written (report_packet payload)]"
  by (auto simp add: write_report_def device_write_def split: list.splits if_splits)

lemma write_reports_Inr_trace:
  "write_reports ps w = (Inr u, w') \<Longrightarrow>
     trace w' = trace w @ map (\<lambda>p. Written (report_packet p)) ps"
proof (induction ps arbitrary: w)
  case Nil
  then show ?case by simp
next
  case (Cons p ps)
  obtain r1 w1 where step: "write_report p w = (r1, w1)" by (cases "write_report p w")
  with Cons.prems obtain u1 where r1: "r1 = Inr u1" by (cases r1) auto
  with Cons.prems step have "write_reports ps w1 = (Inr u, w')" by simp
  from Cons.IH [OF this] write_report_Inr_trace [OF step [unfolded r1]]
  show ?case by simp
qed

lemma send_jpeg_Inr_trace:
  "bat_header (length d) button_id = Inr header \<Longrightarrow>
   send_jpeg_to_button button_id d w = (Inr u, w') \<Longrightarrow>
     trace w' = trace w @
       map (\<lambda>p. Written (report_packet p)) (header # jpeg_chunks d @ [STP_COMMAND])"
proof -
  assume h: "bat_header (length d) button_id = Inr header"
    and run: "send_jpeg_to_button button_id d w = (Inr u, w')"
  from send_jpeg_as_reports [OF h] run
  have "write_reports (header # jpeg_chunks d @ [STP_COMMAND]) w = (Inr u, w')" by simp
  then show ?thesis by (rule write_reports_Inr_trace)
qed

lemma send_images_Inr_written:
  "send_images images idx n w = (Inr u, w') \<Longrightarrow>
     \<exists>evs. trace w' = trace w @ evs \<and>
       written evs =
         concat (map item_packets (filter (\<lambda>item. 0 \<le> fst item \<and> fst item < 6) images))"
proof (induction images idx n w rule: send_images.induct)
  case (1 idx n w)
  then show ?case by simp
next
  case (2 button_index jpeg_data rest idx n w)
  show ?case
  proof (cases "0 \<le> button_index \<and> button_index < 6")
    case False
    let ?w1 = "emit (Printed (SkippingInvalid button_index)) w"
    from False "2.prems" have "send_images rest (Suc idx) n ?w1 = (Inr u, w')" by simp
    from "2.IH"(1) [OF False this] obtain evs where
      "trace w' = trace ?w1 @ evs"
      "written evs =
         concat (map item_packets (filter (\<lambda>item. 0 \<le> fst item \<and> fst item < 6) rest))"
      by blast
    with False have "trace w' = trace w @ (Printed (SkippingInvalid button_index) # evs)"
      and "written (Printed (SkippingInvalid button_index) # evs) =
         concat (map item_packets (filter (\<lambda>item. 0 \<le> fst item \<and> fst item < 6)
           ((button_index, jpeg_data) # rest)))"
      by auto
    then show ?thesis by blast
  next
    case True
    then have valid: "\<not> \<not> (0 \<le> button_index \<and> button_index < 6)" by simp
    from True map_button_valid obtain button_id where
      id: "map_button_for_image button_index = Inr button_id" "button_id < 256" by blast
    from bat_header_Inr [OF id(2)] obtain header where
      h: "bat_header (length jpeg_data) button_id = Inr header" by blast
    obtain r1 w1 where step: "send_jpeg_to_button button_id jpeg_data w = (r1, w1)"
      by (cases "send_jpeg_to_button button_id jpeg_data w")
    with "2.prems" True id obtain u1 where r1: "r1 = Inr u1" by (cases r1) auto
    let ?m = "Printed (ButtonUpdated (button_index + 1) (idx + 1) n)"
    let ?ps = "header # jpeg_chunks jpeg_data @ [STP_COMMAND]"
    from step r1 send_jpeg_as_reports [OF h]
    have "write_reports ?ps w = (Inr u1, w1)" by simp
    from write_reports_Inr_trace [OF this]
    have t1: "trace w1 = trace w @ map (\<lambda>p. Written (report_packet p)) ?ps" .
    from r1 "2.prems" True id step
    have run: "send_images rest (Suc idx) n (emit ?m w1) = (Inr u, w')" by simp
    from step r1 have step': "(Inr u1, w1) = send_jpeg_to_button button_id jpeg_data w" by simp
    from "2.IH"(2) [OF valid id(1) step' refl run] obtain evs2 where
      e2: "trace w' = trace (emit ?m w1) @ evs2"
        "written evs2 =
           concat (map item_packets (filter (\<lambda>item. 0 \<le> fst item \<and> fst item < 6) rest))"
      by blast
    let ?evs = "map (\<lambda>p. Written (report_packet p)) ?ps @ ?m # evs2"
    from t1 e2 have "trace w' = trace w @ ?evs" by simp
    moreover have "item_packets (button_index, jpeg_data) = map report_packet ?ps"
      using id h by (simp add: item_packets_def)
    then have "written ?evs =
         concat (map item_packets (filter (\<lambda>item. 0 \<le> fst item \<and> fst item < 6)
           ((button_index, jpeg_data) # rest)))"
      using True e2(2) by (simp only: written_append written_map) simp
    ultimately show ?thesis by blast
  qed
qed

lemma jpeg_chunks_short:
  "0 < length d \<Longrightarrow> length d \<le> 1023 \<Longrightarrow> jpeg_chunks d = [d]"
  by (simp add: jpeg_chunks_def DATA_SIZE_def slice_def
      range_step.simps [of 0] range_step.simps [of 1023])

lemma printed_append: "printed (evs1 @ evs2) = printed evs1 @ printed evs2"
  by (induction evs1 rule: printed.induct) simp_all

lemma printed_open_try: "list_all open_try os \<Longrightarrow> printed os = []"
  by (induction os rule: printed.induct) simp_all

lemma write_report_printed:
  "write_report payload w = (r, w') \<Longrightarrow> \<exists>evs. trace w' = trace w @ evs \<and> printed evs = []"
  by (auto simp add: write_report_def device_write_def split: list.splits if_splits)

lemma write_reports_printed:
  "write_reports ps w = (r, w') \<Longrightarrow> \<exists>evs. trace w' = trace w @ evs \<and> printed evs = []"
proof (induction ps arbitrary: w)
  case Nil
  then show ?case by simp
next
  case (Cons p ps)
  obtain r1 w1 where step: "write_report p w = (r1, w1)" by (cases "write_report p w")
  from write_report_printed [OF step] obtain evs1 where
    e1: "trace w1 = trace w @ evs1" "printed evs1 = []" by blast
  show ?case
  proof (cases r1)
    case (Inl e)
    with Cons.prems step e1 show ?thesis by auto
  next
    case (Inr u)
    with Cons.prems step have "write_reports ps w1 = (r, w')" by simp
    from Cons.IH [OF this] obtain evs2 where
      e2: "trace w' = trace w1 @ evs2" "printed evs2 = []" by blast
    with e1 have "trace w' = trace w @ (evs1 @ evs2)" "printed (evs1 @ evs2) = []"
      by (simp_all add: printed_append)
    then show ?thesis by blast
  qed
qed

lemma send_jpeg_printed:
  "button_id < 256 \<Longrightarrow> send_jpeg_to_button button_id d w = (r, w') \<Longrightarrow>
     \<exists>evs. trace w' = trace w @ evs \<and> printed evs = []"
proof -
  assume b: "button_id < 256" and run: "send_jpeg_to_button button_id d w = (r, w')"
  from bat_header_Inr [OF b] obtain header where "bat_header (length d) button_id = Inr header"
    by blast
  from send_jpeg_as_reports [OF this] run
  have "write_reports (header # jpeg_chunks d @ [STP_COMMAND]) w = (r, w')" by simp
  then show ?thesis by (rule write_reports_printed)
qed

lemma send_images_printed:
  "send_images images idx n w = (r, w') \<Longrightarrow>
     \<exists>evs k. trace w' = trace w @ evs \<and> printed evs = take k (batch_lines images idx n) \<and>
       (r = Inr () \<longrightarrow> printed evs = batch_lines images idx n)"
proof (induction images idx n w rule: send_images.induct)
  case (1 idx n w)
  then show ?case by simp
next
  case (2 button_index jpeg_data rest idx n w)
  show ?case
  proof (cases "0 \<le> button_index \<and> button_index < 6")
    case False
    let ?m = "Printed (SkippingInvalid button_index)"
    from False "2.prems" have "send_images rest (Suc idx) n (emit ?m w) = (r, w')" by simp
    from "2.IH"(1) [OF False this] obtain evs k where
      e: "trace w' = trace (emit ?m w) @ evs" "printed evs = take k (batch_lines rest (Suc idx) n)"
        "r = Inr () \<longrightarrow> printed evs = batch_lines rest (Suc idx) n"
      by blast
    from False have bl: "batch_lines ((button_index, jpeg_data) # rest) idx n =
        SkippingInvalid button_index # batch_lines rest (Suc idx) n"
      by auto
    from e(1) have "trace w' = trace w @ (?m # evs)" by simp
    moreover from e(2)
    have "printed (?m # evs) = take (Suc k) (batch_lines ((button_index, jpeg_data) # rest) idx n)"
      by (simp add: bl del: batch_lines.simps)
    moreover from e(3)
    have "r = Inr () \<longrightarrow> printed (?m # evs) = batch_lines ((button_index, jpeg_data) # rest) idx n"
      by (simp add: bl del: batch_lines.simps)
    ultimately show ?thesis by blast
  next
    case True
    then have valid: "\<not> \<not> (0 \<le> button_index \<and> button_index < 6)" by simp
    from True map_button_valid obtain button_id where
      id: "map_button_for_image button_index = Inr button_id" "button_id < 256" by blast
    obtain r1 w1 where step: "send_jpeg_to_button button_id jpeg_data w = (r1, w1)"
      by (cases "send_jpeg_to_button button_id jpeg_data w")
    from send_jpeg_printed [OF id(2) step] obtain evs1 where
      e1: "trace w1 = trace w @ evs1" "printed evs1 = []" by blast
    from True have bl: "batch_lines ((button_index, jpeg_data) # rest) idx n =
        ButtonUpdated (button_index + 1) (idx + 1) n # batch_lines rest (Suc idx) n"
      by auto
    show ?thesis
    proof (cases r1)
      case (Inl e)
      with "2.prems" True id step have "r = Inl e" "w' = w1" by simp_all
      with e1 have "trace w' = trace w @ evs1"
        "printed evs1 = take 0 (batch_lines ((button_index, jpeg_data) # rest) idx n)"
        "r = Inr () \<longrightarrow> printed evs1 = batch_lines ((button_index, jpeg_data) # rest) idx n"
        by simp_all
      then show ?thesis by blast
    next
      case (Inr u)
      let ?m = "Printed (ButtonUpdated (button_index + 1) (idx + 1) n)"
      from Inr "2.prems" True id step
      have run: "send_images rest (Suc idx) n (emit ?m w1) = (r, w')" by simp
      from step Inr have step': "(Inr u, w1) = send_jpeg_to_button button_id jpeg_data w" by simp
      from "2.IH"(2) [OF valid id(1) step' refl run] obtain evs2 k where
        e2: "trace w' = trace (emit ?m w1) @ evs2"
          "printed evs2 = take k (batch_lines rest (Suc idx) n)"
          "r = Inr () \<longrightarrow> printed evs2 = batch_lines rest (Suc idx) n"
        by blast
      let ?evs = "evs1 @ ?m # evs2"
      from e1 e2 have "trace w' = trace w @ ?evs" by simp
      moreover from e1 e2(2)
      have "printed ?evs = take (Suc k) (batch_lines ((button_index, jpeg_data) # rest) idx n)"
        by (simp add: printed_append bl del: batch_lines.simps)
      moreover from e1 e2(3)
      have "r = Inr () \<longrightarrow> printed ?evs = batch_lines ((button_index, jpeg_data) # rest) idx n"
        by (simp add: printed_append bl del: batch_lines.simps)
      ultimately show ?thesis by blast
    qed
  qed
qed

subsection \<open>Batch upload\<close>

text \<open>
  C2, amended. On a connected deck the batch upload takes the control lock once and
  releases it once, whatever happens in between. An item whose index is outside 0..5
  is skipped, not an error: when the call returns, the packets written are those of
  the items with a valid index, in order, and the console has one line per item,
  skipped or updated. A write that fails ends the batch: the exception of the
  transport reaches the caller, and after the failed write the only events are the
  close of the device and the release of the lock, so no later item is sent; the
  lines printed are then an initial part of the lines of a complete run.
\<close>

theorem set_multiple_images_batch:
  "connected s \<Longrightarrow> set_multiple_images images s w = (r, s', w') \<Longrightarrow>
     count_list (events_since w w') Acquire = 1 \<and>
     count_list (events_since w w') Release = 1 \<and>
     hd (events_since w w') = Acquire \<and> last (events_since w w') = Release \<and>
     (r = Inr () \<longrightarrow>
        written (events_since w w') =
          concat (map item_packets (filter (\<lambda>item. 0 \<le> fst item \<and> fst item < 6) images)) \<and>
        printed (events_since w w') = batch_lines images 0 (length images)) \<and>
     (\<exists>k. printed (events_since w w') = take k (batch_lines images 0 (length images))) \<and>
     (\<forall>packet. WriteFailed packet \<in> set (events_since w w') \<longrightarrow>
        r = Inl TransportError \<and>
        (\<exists>pre. events_since w w' = pre @ [WriteFailed packet, Closed, Release]))"
proof -
  assume c: "connected s" and run: "set_multiple_images images s w = (r, s', w')"
  let ?valid = "filter (\<lambda>item. 0 \<le> fst item \<and> fst item < 6) images"
  let ?lines = "batch_lines images 0 (length images)"
  let ?P = "\<lambda>r evs. run_events r evs \<and> (\<exists>k. printed evs = take k ?lines) \<and>
              (r = Inr () \<longrightarrow>
                 written evs = concat (map item_packets ?valid) \<and> printed evs = ?lines)"
  from c run have wc: "with_control (send_images images 0 (length images)) s w = (r, s', w')"
    by (simp add: set_multiple_images_def)
  have body: "\<exists>evs. trace w2 = trace w1 @ evs \<and> ?P r1 evs"
    if b: "send_images images 0 (length images) w1 = (r1, w2)" for w1 r1 w2
  proof -
    from send_images_events [OF b] obtain evs where
      e: "trace w2 = trace w1 @ evs" "run_events r1 evs" by blast
    from send_images_printed [OF b] obtain evs' k where
      "trace w2 = trace w1 @ evs'" "printed evs' = take k ?lines"
      "r1 = Inr () \<longrightarrow> printed evs' = ?lines" by blast
    with e(1) have p: "printed evs = take k ?lines" "r1 = Inr () \<longrightarrow> printed evs = ?lines"
      by simp_all
    have "written evs = concat (map item_packets ?valid)" if "r1 = Inr ()"
    proof -
      from send_images_Inr_written [OF b [unfolded that]] obtain evs'' where
        "trace w2 = trace w1 @ evs''" "written evs'' = concat (map item_packets ?valid)" by blast
      with e(1) show ?thesis by simp
    qed
    with e p show ?thesis by blast
  qed
  from with_control_shape [of "send_images images 0 (length images)" ?P, OF body wc]
  obtain os bs where os: "list_all open_try os"
    and shape: "events_since w w' = Acquire # os @ [Release] \<and>
        (r = Inl ControlOpenFailed \<or> r = Inl ControlEndpointNotFound) \<or>
      events_since w w' = Acquire # os @ bs @ [Closed, Release] \<and> ?P r bs"
    by blast
  from shape have shape': "events_since w w' = Acquire # os @ [Release] \<or>
      events_since w w' = Acquire # os @ bs @ [Closed, Release] \<and> run_events r bs"
    by blast
  from shape have shape'': "events_since w w' = Acquire # os @ [Release] \<and>
        (r = Inl ControlOpenFailed \<or> r = Inl ControlEndpointNotFound) \<or>
      events_since w w' = Acquire # os @ bs @ [Closed, Release] \<and> run_events r bs"
    by blast
  have ok: "written (events_since w w') = concat (map item_packets ?valid) \<and>
      printed (events_since w w') = ?lines" if "r = Inr ()"
  proof -
    from that shape have "events_since w w' = Acquire # os @ bs @ [Closed, Release]"
      and "written bs = concat (map item_packets ?valid)" and "printed bs = ?lines" by auto
    with written_open_try [OF os] printed_open_try [OF os] show ?thesis
      by (simp add: written_append printed_append)
  qed
  have lines: "\<exists>k. printed (events_since w w') = take k ?lines"
  proof -
    from shape consider
      (closed) "events_since w w' = Acquire # os @ [Release]"
      | (ran) k where "events_since w w' = Acquire # os @ bs @ [Closed, Release]"
          "printed bs = take k ?lines"
      by blast
    then show ?thesis
    proof cases
      case closed
      with printed_open_try [OF os] have "printed (events_since w w') = take 0 ?lines"
        by (simp add: printed_append)
      then show ?thesis by blast
    next
      case ran
      with printed_open_try [OF os] have "printed (events_since w w') = take k ?lines"
        by (simp add: printed_append)
      then show ?thesis by blast
    qed
  qed
  have failed: "r = Inl TransportError \<and>
      (\<exists>pre. events_since w w' = pre @ [WriteFailed packet, Closed, Release])"
    if "WriteFailed packet \<in> set (events_since w w')" for packet
    using os that shape'' by (rule locked_failed_write)
  from ok lines failed locked_counts [OF os shape'] show ?thesis by blast
qed

lemma batch_run:
  "set_multiple_images [(7, [1]), (0, [1, 2])] ready_deck accepting =
     (Inr (), ready_deck,
      \<lparr>interfaces = [], open_results = [], write_results = [],
       trace = [Acquire, Opened ''ctl'', Printed (SkippingInvalid 7),
                Written (report_packet (BAT_PREFIX @ [0, 2, 5])),
                Written (report_packet [1, 2]),
                Written (report_packet STP_COMMAND),
                Printed (ButtonUpdated 1 2 2), Closed, Release]\<rparr>)"
  by (simp add: set_multiple_images_def with_control_def open_control_known ready_deck_def
      accepting_def map_button_values send_jpeg_to_button_def bat_header_bytes
      write_report_def device_write_def emit_def jpeg_chunks_short)

theorem set_multiple_images_batch_witness:
  "connected ready_deck \<and>
   fst (set_multiple_images [(7, [1]), (0, [1, 2])] ready_deck accepting) = Inr () \<and>
   count_list (events_since accepting
     (snd (snd (set_multiple_images [(7, [1]), (0, [1, 2])] ready_deck accepting)))) Acquire = 1 \<and>
   written (events_since accepting
     (snd (snd (set_multiple_images [(7, [1]), (0, [1, 2])] ready_deck accepting)))) =
     item_packets (0, [1, 2]) \<and>
   printed (events_since accepting
     (snd (snd (set_multiple_images [(7, [1]), (0, [1, 2])] ready_deck accepting)))) =
     [SkippingInvalid 7, ButtonUpdated 1 2 2]"
proof -
  have c: "connected ready_deck" by (simp add: ready_deck_def)
  from set_multiple_images_batch [OF c batch_run] c show ?thesis
    by (simp add: batch_run)
qed

text \<open>
  C2 as stated fails: with two valid items and a transport whose first write raises,
  the call raises, and nothing of the second item is written.
\<close>

theorem batch_abort_counterexample:
  "set_multiple_images [(0, [1]), (1, [2])] ready_deck first_write_fails =
     (Inl TransportError, ready_deck,
      \<lparr>interfaces = [], open_results = [], write_results = [],
       trace = [Acquire, Opened ''ctl'',
                WriteFailed (report_packet (BAT_PREFIX @ [0, 1, 5])), Closed, Release]\<rparr>)"
  by (simp add: set_multiple_images_def with_control_def open_control_known ready_deck_def
      first_write_fails_def map_button_values send_jpeg_to_button_def bat_header_bytes
      write_report_def device_write_def emit_def)

text \<open>
  C10. The batch upload never touches the cache: after it, whatever it returned or
  raised, the cache is what it was, and so are the connected flag and the event path.
  With a control path already known the whole driver object is unchanged, so
  \<open>refresh_images\<close> and a keepalive cycle send after the batch exactly what they
  would have sent before it.
\<close>

theorem set_multiple_images_cache_frame:
  "set_multiple_images images s w = (r, s', w') \<Longrightarrow>
     button_images s' = button_images s \<and> connected s' = connected s \<and>
     event_path s' = event_path s \<and>
     (control_path s \<noteq> None \<longrightarrow>
        s' = s \<and> refresh_images s' = refresh_images s \<and>
        keepalive_cycle heartbeat_due s' = keepalive_cycle heartbeat_due s)"
proof (cases "connected s")
  case False
  assume "set_multiple_images images s w = (r, s', w')"
  with False show ?thesis by (simp add: set_multiple_images_def)
next
  case True
  assume "set_multiple_images images s w = (r, s', w')"
  with True have "with_control (send_images images 0 (length images)) s w = (r, s', w')"
    by (simp add: set_multiple_images_def)
  from with_control_frame [OF this] show ?thesis by auto
qed

theorem set_multiple_images_cache_frame_witness:
  "fst (set_multiple_images [(7, [1]), (0, [1, 2])] ready_deck accepting) = Inr () \<and>
   button_images (fst (snd (set_multiple_images [(7, [1]), (0, [1, 2])] ready_deck accepting))) = [] \<and>
   control_path ready_deck \<noteq> None \<and>
   fst (snd (set_multiple_images [(7, [1]), (0, [1, 2])] ready_deck accepting)) = ready_deck"
  using set_multiple_images_cache_frame [OF batch_run]
  by (simp add: batch_run) (simp add: ready_deck_def)

subsection \<open>Single upload\<close>

text \<open>
  C1, amended. On a connected deck and for a slot in 0..5, the upload stores the
  buffer in the cache entry of the slot before it takes the lock, and leaves every
  other entry alone: the entry holds the new buffer after the call whether the writes
  succeeded or not. The lock is taken once and released once. When the call returns,
  the packets written are those of the item. When a write fails, the exception of the
  transport reaches the caller as it is, after the device is closed and the lock
  released, and nothing is written after the failed write.
\<close>

theorem set_button_image_caches_first:
  "connected s \<Longrightarrow> 0 \<le> button_index \<Longrightarrow> button_index < 6 \<Longrightarrow>
   set_button_image button_index jpeg_data s w = (r, s', w') \<Longrightarrow>
     button_images s' = AList.update button_index jpeg_data (button_images s) \<and>
     map_of (button_images s') button_index = Some jpeg_data \<and>
     (\<forall>j. j \<noteq> button_index \<longrightarrow>
        map_of (button_images s') j = map_of (button_images s) j) \<and>
     count_list (events_since w w') Acquire = 1 \<and>
     count_list (events_since w w') Release = 1 \<and>
     (r = Inr () \<longrightarrow>
        written (events_since w w') = item_packets (button_index, jpeg_data)) \<and>
     (\<forall>packet. WriteFailed packet \<in> set (events_since w w') \<longrightarrow>
        r = Inl TransportError \<and>
        (\<exists>pre. events_since w w' = pre @ [WriteFailed packet, Closed, Release]))"
proof -
  assume c: "connected s" and lo: "0 \<le> button_index" and hi: "button_index < 6"
    and run: "set_button_image button_index jpeg_data s w = (r, s', w')"
  let ?s1 = "s\<lparr>button_images := AList.update button_index jpeg_data (button_images s)\<rparr>"
  from map_button_valid [OF lo hi] obtain button_id where
    id: "map_button_for_image button_index = Inr button_id" "button_id < 256" by blast
  from bat_header_Inr [OF id(2)] obtain header where
    h: "bat_header (length jpeg_data) button_id = Inr header" by blast
  let ?ps = "map report_packet (header # jpeg_chunks jpeg_data @ [STP_COMMAND])"
  have ip: "item_packets (button_index, jpeg_data) = ?ps"
    using id h by (simp add: item_packets_def)
  let ?P = "\<lambda>r evs. run_events r evs \<and> (r = Inr () \<longrightarrow> written evs = ?ps)"
  from c lo hi id run
  have wc: "with_control (send_jpeg_to_button button_id jpeg_data) ?s1 w = (r, s', w')"
    by (simp add: set_button_image_def Let_def)
  from with_control_frame [OF wc]
  have cache: "button_images s' = AList.update button_index jpeg_data (button_images s)"
    by simp
  have body: "\<exists>evs. trace w2 = trace w1 @ evs \<and> ?P r1 evs"
    if b: "send_jpeg_to_button button_id jpeg_data w1 = (r1, w2)" for w1 r1 w2
  proof (cases r1)
    case (Inl e)
    with send_jpeg_events [OF id(2) b] show ?thesis by auto
  next
    case (Inr u)
    from send_jpeg_events [OF id(2) b] obtain evs where
      e: "trace w2 = trace w1 @ evs" "run_events r1 evs" by blast
    from send_jpeg_Inr_trace [OF h b [unfolded Inr]] e(1)
    have "evs = map (\<lambda>p. Written (report_packet p)) (header # jpeg_chunks jpeg_data @ [STP_COMMAND])"
      by simp
    then have "written evs = ?ps" by (simp only: written_map)
    with e show ?thesis by blast
  qed
  from with_control_shape [of "send_jpeg_to_button button_id jpeg_data" ?P, OF body wc]
  obtain os bs where os: "list_all open_try os"
    and shape: "events_since w w' = Acquire # os @ [Release] \<and>
        (r = Inl ControlOpenFailed \<or> r = Inl ControlEndpointNotFound) \<or>
      events_since w w' = Acquire # os @ bs @ [Closed, Release] \<and> ?P r bs"
    by blast
  from shape have shape': "events_since w w' = Acquire # os @ [Release] \<or>
      events_since w w' = Acquire # os @ bs @ [Closed, Release] \<and> run_events r bs"
    by blast
  from shape have shape'': "events_since w w' = Acquire # os @ [Release] \<and>
        (r = Inl ControlOpenFailed \<or> r = Inl ControlEndpointNotFound) \<or>
      events_since w w' = Acquire # os @ bs @ [Closed, Release] \<and> run_events r bs"
    by blast
  have "written (events_since w w') = item_packets (button_index, jpeg_data)" if "r = Inr ()"
  proof -
    from that shape have "events_since w w' = Acquire # os @ bs @ [Closed, Release]"
      and "written bs = ?ps" by auto
    with written_open_try [OF os] ip show ?thesis by (simp add: written_append)
  qed
  moreover have "r = Inl TransportError \<and>
      (\<exists>pre. events_since w w' = pre @ [WriteFailed packet, Closed, Release])"
    if "WriteFailed packet \<in> set (events_since w w')" for packet
    using os that shape'' by (rule locked_failed_write)
  moreover from cache have "map_of (button_images s') button_index = Some jpeg_data"
    and "\<forall>j. j \<noteq> button_index \<longrightarrow> map_of (button_images s') j = map_of (button_images s) j"
    by (simp_all add: update_conv')
  ultimately show ?thesis
    using locked_counts [OF os shape'] cache by blast
qed

lemma failed_upload_run:
  "set_button_image 0 [1, 2, 3] ready_deck first_write_fails =
     (Inl TransportError, ready_deck\<lparr>button_images := [(0, [1, 2, 3])]\<rparr>,
      \<lparr>interfaces = [], open_results = [], write_results = [],
       trace = [Acquire, Opened ''ctl'',
                WriteFailed (report_packet (BAT_PREFIX @ [0, 3, 5])), Closed, Release]\<rparr>)"
  by (simp add: set_button_image_def with_control_def open_control_known ready_deck_def
      first_write_fails_def map_button_values send_jpeg_to_button_def bat_header_bytes
      write_report_def device_write_def emit_def)

theorem set_button_image_caches_first_witness:
  "connected ready_deck \<and>
   button_images (fst (snd (set_button_image 0 [1, 2, 3] ready_deck first_write_fails))) =
     [(0, [1, 2, 3])] \<and>
   fst (set_button_image 0 [1, 2, 3] ready_deck first_write_fails) = Inl TransportError"
proof -
  have c: "connected ready_deck" by (simp add: ready_deck_def)
  have "WriteFailed (report_packet (BAT_PREFIX @ [0, 3, 5])) \<in>
      set (events_since first_write_fails
        \<lparr>interfaces = [], open_results = [], write_results = [],
         trace = [Acquire, Opened ''ctl'',
                  WriteFailed (report_packet (BAT_PREFIX @ [0, 3, 5])), Closed, Release]\<rparr>)"
    by (simp add: events_since_def first_write_fails_def)
  with set_button_image_caches_first [OF c _ _ failed_upload_run] c show ?thesis
    by (simp add: failed_upload_run)
qed

text \<open>
  C1 as stated fails: on a deck with an empty cache and a transport whose first write
  raises, the upload raises and the cache entry of the slot holds the new buffer.
\<close>

theorem failed_upload_counterexample:
  "map_of (button_images ready_deck) 0 = None \<and>
   fst (set_button_image 0 [1, 2, 3] ready_deck first_write_fails) = Inl TransportError \<and>
   map_of (button_images (fst (snd (set_button_image 0 [1, 2, 3] ready_deck first_write_fails)))) 0 =
     Some [1, 2, 3]"
  by (simp add: failed_upload_run) (simp add: ready_deck_def)

subsection \<open>Connecting\<close>

lemma assign_paths_control:
  "control_path (assign_paths ms s) =
     (case filter (\<lambda>d. usage_page d = USAGE_PAGE \<and> usage d = 1) ms of
        [] \<Rightarrow> control_path s
      | d # ds \<Rightarrow> Some (path (last (d # ds))))"
proof (induction ms arbitrary: s)
  case Nil
  then show ?case by simp
next
  case (Cons m ms)
  show ?case
    by (simp add: Cons.IH split: list.splits)
qed

lemma assign_paths_event:
  "event_path (assign_paths ms s) =
     (case filter (\<lambda>d. usage_page d = USAGE_PAGE \<and> usage d = 2) ms of
        [] \<Rightarrow> event_path s
      | d # ds \<Rightarrow> Some (path (last (d # ds))))"
proof (induction ms arbitrary: s)
  case Nil
  then show ?case by simp
next
  case (Cons m ms)
  show ?case
    by (simp add: Cons.IH split: list.splits)
qed

lemma send_init_frame:
  "send_init s w = (r, s', w') \<Longrightarrow>
     connected s' = connected s \<and> event_path s' = event_path s \<and>
     button_images s' = button_images s \<and> (control_path s \<noteq> None \<longrightarrow> s' = s)"
  using with_control_frame [of _ s w r s' w'] by (simp add: send_init_def)

lemma send_init_ok:
  "control_path s = Some p \<Longrightarrow> open_results w = [] \<Longrightarrow> write_results w = [] \<Longrightarrow>
     fst (send_init s w) = Inr ()"
  by (simp add: send_init_def with_control_def open_control_known write_reports_ok
      del: write_reports.simps)

lemma connect_cases:
  "connect s w =
     (let matching = filter (\<lambda>d. vendor_id d = VENDOR_ID \<and> product_id d = PRODUCT_ID) (interfaces w);
          w0 = emit (Printed LookingFor) w;
          w1 = emit (Printed (FoundInterfaces (length matching))) w0;
          s1 = assign_paths matching s
      in if matching = [] then (Inl DeviceNotFound, s, w0)
         else if unset (control_path s1) then (Inl ControlInterfaceNotFound, s1, w1)
         else (case send_init s1 w1 of
                 (Inl e, s2, w2) \<Rightarrow> (Inl e, s2, w2)
               | (Inr u, s2, w2) \<Rightarrow>
                   (Inr (), s2\<lparr>connected := True\<rparr>, emit (Printed ConnectedInitialized) w2)))"
  by (simp add: connect_def hid_enumerate_def Let_def)

text \<open>
  C8, amended. On a fresh driver object, \<open>connect\<close> raises the device-not-found error
  when no interface has the vendor and product ID, and the control-interface-not-found
  error when the interfaces of the device on the usage page have no control interface
  (usage 1) with a path. The event interface (usage 2) is not required: the event path
  is that of the last such interface, or stays \<open>None\<close>. On success the deck is
  connected and the control path is that of the last control interface; and with a
  control interface and a transport that accepts everything, \<open>connect\<close> succeeds.
\<close>

theorem connect_outcomes:
  "connect K1Pro w = (r, s', w') \<Longrightarrow>
   matching = filter (\<lambda>d. vendor_id d = VENDOR_ID \<and> product_id d = PRODUCT_ID) (interfaces w) \<Longrightarrow>
   controls = filter (\<lambda>d. usage_page d = USAGE_PAGE \<and> usage d = 1) matching \<Longrightarrow>
   events = filter (\<lambda>d. usage_page d = USAGE_PAGE \<and> usage d = 2) matching \<Longrightarrow>
     (matching = [] \<longrightarrow> r = Inl DeviceNotFound \<and> s' = K1Pro) \<and>
     (matching \<noteq> [] \<and> (controls = [] \<or> path (last controls) = []) \<longrightarrow>
        r = Inl ControlInterfaceNotFound) \<and>
     (matching \<noteq> [] \<longrightarrow>
        event_path s' = (if events = [] then None else Some (path (last events)))) \<and>
     (r = Inr () \<longrightarrow>
        connected s' \<and> controls \<noteq> [] \<and> path (last controls) \<noteq> [] \<and>
        control_path s' = Some (path (last controls))) \<and>
     (controls \<noteq> [] \<and> path (last controls) \<noteq> [] \<and>
      open_results w = [] \<and> write_results w = [] \<longrightarrow> r = Inr ())"
proof -
  assume run: "connect K1Pro w = (r, s', w')"
    and m: "matching = filter (\<lambda>d. vendor_id d = VENDOR_ID \<and> product_id d = PRODUCT_ID) (interfaces w)"
    and cs: "controls = filter (\<lambda>d. usage_page d = USAGE_PAGE \<and> usage d = 1) matching"
    and es: "events = filter (\<lambda>d. usage_page d = USAGE_PAGE \<and> usage d = 2) matching"
  let ?s1 = "assign_paths matching K1Pro"
  let ?w1 = "emit (Printed (FoundInterfaces (length matching))) (emit (Printed LookingFor) w)"
  have cp: "control_path ?s1 = (if controls = [] then None else Some (path (last controls)))"
    by (simp add: assign_paths_control cs K1Pro_def split: list.splits)
  have ep: "event_path ?s1 = (if events = [] then None else Some (path (last events)))"
    by (simp add: assign_paths_event es K1Pro_def split: list.splits)
  have un: "unset (control_path ?s1) \<longleftrightarrow> controls = [] \<or> path (last controls) = []"
    by (simp add: cp unset_def)
  show ?thesis
  proof (cases "matching = []")
    case True
    with run m cs show ?thesis by (auto simp add: connect_cases Let_def)
  next
    case ne: False
    show ?thesis
    proof (cases "controls = [] \<or> path (last controls) = []")
      case True
      with ne run m un ep have "r = Inl ControlInterfaceNotFound" "s' = ?s1"
        by (simp_all add: connect_cases Let_def)
      with ne True ep show ?thesis by auto
    next
      case False
      with un have set: "\<not> unset (control_path ?s1)" by simp
      from False cp have known: "control_path ?s1 = Some (path (last controls))" by simp
      obtain r2 s2 w2 where si: "send_init ?s1 ?w1 = (r2, s2, w2)"
        by (cases "send_init ?s1 ?w1")
      from send_init_frame [OF si] known have s2: "s2 = ?s1" by simp
      from ne set si run m have res: "r = r2" "event_path s' = event_path s2"
        "control_path s' = control_path s2" "r = Inr () \<longrightarrow> connected s'"
        by (auto simp add: connect_cases Let_def split: sum.splits)
      have "r = Inr ()" if "open_results w = []" "write_results w = []"
        using send_init_ok [OF known, of ?w1] that si res(1) by simp
      with ne False res s2 known ep show ?thesis by auto
    qed
  qed
qed

lemma connect_control_only:
  "fst (connect K1Pro control_only) = Inr () \<and>
   fst (snd (connect K1Pro control_only)) =
     \<lparr>connected = True, control_path = Some ''ctl'', event_path = None, button_images = []\<rparr>"
  by (simp add: connect_cases Let_def control_only_def K1Pro_def VENDOR_ID_def PRODUCT_ID_def
      USAGE_PAGE_def unset_def send_init_def with_control_def open_control_known write_reports_ok
      del: write_reports.simps)

theorem connect_outcomes_witness:
  "fst (connect K1Pro control_only) = Inr () \<and>
   control_path (fst (snd (connect K1Pro control_only))) = Some ''ctl'' \<and>
   event_path (fst (snd (connect K1Pro control_only))) = None"
proof -
  have run: "connect K1Pro control_only =
      (fst (connect K1Pro control_only), fst (snd (connect K1Pro control_only)),
       snd (snd (connect K1Pro control_only)))"
    by simp
  have "filter (\<lambda>d. vendor_id d = VENDOR_ID \<and> product_id d = PRODUCT_ID) (interfaces control_only) =
      interfaces control_only"
    by (simp add: control_only_def VENDOR_ID_def PRODUCT_ID_def)
  from connect_outcomes [OF run this [symmetric] refl refl]
  show ?thesis
    by (simp add: control_only_def USAGE_PAGE_def)
qed

text \<open>
  C8 as stated fails: a device with a control interface and no event interface
  connects, and the event path is unassigned afterwards.
\<close>

theorem connect_without_events_counterexample:
  "filter (\<lambda>d. usage d = 2) (interfaces control_only) = [] \<and>
   fst (connect K1Pro control_only) = Inr () \<and>
   connected (fst (snd (connect K1Pro control_only))) \<and>
   event_path (fst (snd (connect K1Pro control_only))) = None"
  by (simp add: connect_control_only) (simp add: control_only_def)


subsection \<open>Inbound reports\<close>

lemma index_of_Some: "index_of xs v = Some i \<Longrightarrow> i < length xs \<and> xs ! i = v"
  by (induction xs arbitrary: i) (auto split: if_splits)

lemma main_report_04:
  "12 \<le> length data \<Longrightarrow> data ! 0 = 0x04 \<Longrightarrow>
     main_report data s w =
       ((case index_of BUTTON_ID_MAP (unat (data ! 10)) of
           Some phys_idx \<Rightarrow>
             (if data ! 11 = 1 then Inr (Some (BUTTON phys_idx True))
              else if data ! 11 = 0 then Inr (Some (BUTTON phys_idx False))
              else Inr None)
         | None \<Rightarrow>
             Inr (Some
               (if data ! 10 = 0x51 then KNOB_TURN 1 True
                else if data ! 10 = 0x50 then KNOB_TURN 1 False
                else if data ! 10 = 0x61 then KNOB_TURN 2 True
                else if data ! 10 = 0x60 then KNOB_TURN 2 False
                else if data ! 10 = 0x91 then KNOB_TURN 3 True
                else if data ! 10 = 0x90 then KNOB_TURN 3 False
                else if data ! 10 = 0x25 then KNOB_PRESSED 1
                else if data ! 10 = 0x30 then KNOB_PRESSED 2
                else if data ! 10 = 0x31 then KNOB_PRESSED 3
                else UNKNOWN (data ! 10) (data ! 11)))), s, w)"
proof -
  assume len: "12 \<le> length data" and rid: "data ! 0 = 0x04"
  from len have ne: "data \<noteq> []" "\<not> length data < 2" by auto
  from len have sub: "subscript data 10 = Inr (data ! 10)" "subscript data 11 = Inr (data ! 11)"
    by (simp_all add: subscript_def)
  have unfold: "main_report data s w =
      (case index_of BUTTON_ID_MAP (unat (data ! 10)) of
         Some phys_idx \<Rightarrow>
           (if data ! 11 = 1 then (Inr (Some (BUTTON phys_idx True)), s, w)
            else if data ! 11 = 0 then (Inr (Some (BUTTON phys_idx False)), s, w)
            else (Inr None, s, w))
       | None \<Rightarrow>
           (Inr (Some
              (if data ! 10 = 0x51 then KNOB_TURN 1 True
               else if data ! 10 = 0x50 then KNOB_TURN 1 False
               else if data ! 10 = 0x61 then KNOB_TURN 2 True
               else if data ! 10 = 0x60 then KNOB_TURN 2 False
               else if data ! 10 = 0x91 then KNOB_TURN 3 True
               else if data ! 10 = 0x90 then KNOB_TURN 3 False
               else if data ! 10 = 0x25 then KNOB_PRESSED 1
               else if data ! 10 = 0x30 then KNOB_PRESSED 2
               else if data ! 10 = 0x31 then KNOB_PRESSED 3
               else UNKNOWN (data ! 10) (data ! 11))), s, w))"
    unfolding main_report_def Let_def
    by (simp only: ne rid sub sum.case if_False if_True simp_thms)
  show ?thesis
  proof (cases "index_of BUTTON_ID_MAP (unat (data ! 10))")
    case None
    then show ?thesis unfolding unfold by (simp only: option.case)
  next
    case (Some phys_idx)
    then show ?thesis unfolding unfold
      by (simp only: option.case if_distrib [of "\<lambda>r. (r, s, w)", symmetric])
  qed
qed

lemma main_report_01_release:
  "2 \<le> length data \<Longrightarrow> data ! 0 = 0x01 \<Longrightarrow> data ! 1 = 0 \<Longrightarrow>
     main_report data s w =
       (case refresh_images s w of
          (Inl e, s', w') \<Rightarrow> (Inr (Some RELEASE), s', emit (Printed RefreshFailed) w')
        | (Inr u, s', w') \<Rightarrow> (Inr (Some RELEASE), s', w'))"
  by (auto simp add: main_report_def)

lemma main_report_01_press:
  "2 \<le> length data \<Longrightarrow> data ! 0 = 0x01 \<Longrightarrow> data ! 1 \<noteq> 0 \<Longrightarrow>
     main_report data s w = (Inr (Some (PRESS (data ! 1))), s, w)"
  by (auto simp add: main_report_def)

lemma main_report_other:
  "2 \<le> length data \<Longrightarrow> data ! 0 \<noteq> 0x04 \<Longrightarrow> data ! 0 \<noteq> 0x01 \<Longrightarrow>
     main_report data s w = (Inr (Some (RPT (data ! 0))), s, w)"
  by (auto simp add: main_report_def)

lemma main_report_short:
  "length data < 2 \<Longrightarrow> main_report data s w = (Inr None, s, w)"
  by (simp add: main_report_def)

lemma main_report_04_any:
  "2 \<le> length data \<Longrightarrow> data ! 0 = 0x04 \<Longrightarrow>
     fst (main_report data s w) \<noteq> Inr (Some RELEASE) \<and> snd (main_report data s w) = (s, w)"
proof (cases "12 \<le> length data")
  case True
  assume rid: "data ! 0 = 0x04"
  show ?thesis
  proof (cases "index_of BUTTON_ID_MAP (unat (data ! 10))")
    case None
    then show ?thesis by (simp add: main_report_04 [OF True rid])
  next
    case (Some phys_idx)
    then show ?thesis by (simp add: main_report_04 [OF True rid])
  qed
next
  case False
  assume len: "2 \<le> length data" and rid: "data ! 0 = 0x04"
  from len have ne: "data \<noteq> []" "\<not> length data < 2" by auto
  from False have sub: "subscript data 11 = Inl IndexError"
    by (simp add: subscript_def)
  have "main_report data s w = (Inl IndexError, s, w)"
  proof (cases "subscript data 10")
    case (Inl e)
    with False have "e = IndexError" by (simp add: subscript_def split: if_splits)
    with Inl show ?thesis
      unfolding main_report_def Let_def
      by (simp only: ne rid sum.case if_False if_True simp_thms)
  next
    case (Inr control_id)
    then show ?thesis
      unfolding main_report_def Let_def
      by (simp only: ne rid sub sum.case if_False if_True simp_thms)
  qed
  then show ?thesis by simp
qed

lemma main_report_release_iff:
  "fst (main_report data s w) = Inr (Some RELEASE) \<longleftrightarrow>
     2 \<le> length data \<and> data ! 0 = 0x01 \<and> data ! 1 = 0"
proof (cases "2 \<le> length data")
  case False
  then show ?thesis by (simp add: main_report_short)
next
  case len: True
  consider (four) "data ! 0 = 0x04" | (rel) "data ! 0 = 0x01" "data ! 1 = 0"
    | (press) "data ! 0 = 0x01" "data ! 1 \<noteq> 0" | (other) "data ! 0 \<noteq> 0x04" "data ! 0 \<noteq> 0x01"
    by blast
  then show ?thesis
  proof cases
    case four
    with main_report_04_any [OF len four, of s w] show ?thesis by simp
  next
    case rel
    with len show ?thesis
      by (simp add: main_report_01_release split: prod.splits sum.splits)
  next
    case press
    with len show ?thesis by (simp add: main_report_01_press)
  next
    case other
    with len show ?thesis by (simp add: main_report_other)
  qed
qed

lemma main_report_quiet:
  "\<not> (2 \<le> length data \<and> data ! 0 = 0x01 \<and> data ! 1 = 0) \<Longrightarrow>
     snd (main_report data s w) = (s, w)"
proof (cases "2 \<le> length data")
  case False
  then show ?thesis by (simp add: main_report_short)
next
  case len: True
  assume no: "\<not> (2 \<le> length data \<and> data ! 0 = 0x01 \<and> data ! 1 = 0)"
  consider (four) "data ! 0 = 0x04"
    | (press) "data ! 0 = 0x01" "data ! 1 \<noteq> 0" | (other) "data ! 0 \<noteq> 0x04" "data ! 0 \<noteq> 0x01"
    using no len by blast
  then show ?thesis
  proof cases
    case four
    with main_report_04_any [OF len four, of s w] show ?thesis by simp
  next
    case press
    with len show ?thesis by (simp add: main_report_01_press)
  next
    case other
    with len show ?thesis by (simp add: main_report_other)
  qed
qed

text \<open>
  C3, amended. For a report of at least twelve bytes with report ID 4, the event loop
  of \<open>main\<close> takes byte 10 as the control code and byte 11 as the state, and touches
  neither the driver nor the device. When the code is the protocol ID of a button,
  the slot is its position in the table, and the loop reports the button pressed for
  state 1, released for state 0, and nothing for any other state. The codes 0x51/0x50,
  0x61/0x60, 0x91/0x90 are the turns of knobs 1, 2, 3 (clockwise first), 0x25, 0x30,
  0x31 their presses, and every other code is reported as unknown. A report of at
  least two bytes with report ID 1 and byte 1 equal to 0 is reported as RELEASE, and
  no other report is; after that line the loop calls \<open>refresh_images\<close> and swallows
  its exception, so the driver and the device are left as \<open>refresh_images\<close> leaves
  them, with one more console line when it raised. Every other report leaves both
  untouched: a key report with another byte 1 is a PRESS, another report ID is
  reported with its number, a read of fewer than two bytes prints nothing.
\<close>

theorem main_report_classification:
  "(12 \<le> length data \<and> data ! 0 = 0x04 \<longrightarrow>
      snd (main_report data s w) = (s, w) \<and>
      (\<forall>slot. index_of BUTTON_ID_MAP (unat (data ! 10)) = Some slot \<longrightarrow>
         slot < 6 \<and> map_button_for_image (int slot) = Inr (unat (data ! 10)) \<and>
         fst (main_report data s w) =
           Inr (if data ! 11 = 1 then Some (BUTTON slot True)
                else if data ! 11 = 0 then Some (BUTTON slot False)
                else None)) \<and>
      (data ! 10 = 0x51 \<longrightarrow> fst (main_report data s w) = Inr (Some (KNOB_TURN 1 True))) \<and>
      (data ! 10 = 0x50 \<longrightarrow> fst (main_report data s w) = Inr (Some (KNOB_TURN 1 False))) \<and>
      (data ! 10 = 0x61 \<longrightarrow> fst (main_report data s w) = Inr (Some (KNOB_TURN 2 True))) \<and>
      (data ! 10 = 0x60 \<longrightarrow> fst (main_report data s w) = Inr (Some (KNOB_TURN 2 False))) \<and>
      (data ! 10 = 0x91 \<longrightarrow> fst (main_report data s w) = Inr (Some (KNOB_TURN 3 True))) \<and>
      (data ! 10 = 0x90 \<longrightarrow> fst (main_report data s w) = Inr (Some (KNOB_TURN 3 False))) \<and>
      (data ! 10 = 0x25 \<longrightarrow> fst (main_report data s w) = Inr (Some (KNOB_PRESSED 1))) \<and>
      (data ! 10 = 0x30 \<longrightarrow> fst (main_report data s w) = Inr (Some (KNOB_PRESSED 2))) \<and>
      (data ! 10 = 0x31 \<longrightarrow> fst (main_report data s w) = Inr (Some (KNOB_PRESSED 3))) \<and>
      (index_of BUTTON_ID_MAP (unat (data ! 10)) = None \<and>
       data ! 10 \<noteq> 0x51 \<and> data ! 10 \<noteq> 0x50 \<and> data ! 10 \<noteq> 0x61 \<and> data ! 10 \<noteq> 0x60 \<and>
       data ! 10 \<noteq> 0x91 \<and> data ! 10 \<noteq> 0x90 \<and> data ! 10 \<noteq> 0x25 \<and> data ! 10 \<noteq> 0x30 \<and>
       data ! 10 \<noteq> 0x31 \<longrightarrow>
         fst (main_report data s w) = Inr (Some (UNKNOWN (data ! 10) (data ! 11))))) \<and>
   (2 \<le> length data \<and> data ! 0 = 0x01 \<and> data ! 1 = 0 \<longrightarrow>
      main_report data s w =
        (case refresh_images s w of
           (Inl e, s', w') \<Rightarrow> (Inr (Some RELEASE), s', emit (Printed RefreshFailed) w')
         | (Inr u, s', w') \<Rightarrow> (Inr (Some RELEASE), s', w'))) \<and>
   (2 \<le> length data \<and> data ! 0 = 0x01 \<and> data ! 1 \<noteq> 0 \<longrightarrow>
      main_report data s w = (Inr (Some (PRESS (data ! 1))), s, w)) \<and>
   (2 \<le> length data \<and> data ! 0 \<noteq> 0x04 \<and> data ! 0 \<noteq> 0x01 \<longrightarrow>
      main_report data s w = (Inr (Some (RPT (data ! 0))), s, w)) \<and>
   (length data < 2 \<longrightarrow> main_report data s w = (Inr None, s, w)) \<and>
   (fst (main_report data s w) = Inr (Some RELEASE) \<longleftrightarrow>
      2 \<le> length data \<and> data ! 0 = 0x01 \<and> data ! 1 = 0) \<and>
   (\<not> (2 \<le> length data \<and> data ! 0 = 0x01 \<and> data ! 1 = 0) \<longrightarrow>
      snd (main_report data s w) = (s, w))"
proof -
  have four: "snd (main_report data s w) = (s, w) \<and>
      (\<forall>slot. index_of BUTTON_ID_MAP (unat (data ! 10)) = Some slot \<longrightarrow>
         slot < 6 \<and> map_button_for_image (int slot) = Inr (unat (data ! 10)) \<and>
         fst (main_report data s w) =
           Inr (if data ! 11 = 1 then Some (BUTTON slot True)
                else if data ! 11 = 0 then Some (BUTTON slot False)
                else None)) \<and>
      (data ! 10 = 0x51 \<longrightarrow> fst (main_report data s w) = Inr (Some (KNOB_TURN 1 True))) \<and>
      (data ! 10 = 0x50 \<longrightarrow> fst (main_report data s w) = Inr (Some (KNOB_TURN 1 False))) \<and>
      (data ! 10 = 0x61 \<longrightarrow> fst (main_report data s w) = Inr (Some (KNOB_TURN 2 True))) \<and>
      (data ! 10 = 0x60 \<longrightarrow> fst (main_report data s w) = Inr (Some (KNOB_TURN 2 False))) \<and>
      (data ! 10 = 0x91 \<longrightarrow> fst (main_report data s w) = Inr (Some (KNOB_TURN 3 True))) \<and>
      (data ! 10 = 0x90 \<longrightarrow> fst (main_report data s w) = Inr (Some (KNOB_TURN 3 False))) \<and>
      (data ! 10 = 0x25 \<longrightarrow> fst (main_report data s w) = Inr (Some (KNOB_PRESSED 1))) \<and>
      (data ! 10 = 0x30 \<longrightarrow> fst (main_report data s w) = Inr (Some (KNOB_PRESSED 2))) \<and>
      (data ! 10 = 0x31 \<longrightarrow> fst (main_report data s w) = Inr (Some (KNOB_PRESSED 3))) \<and>
      (index_of BUTTON_ID_MAP (unat (data ! 10)) = None \<and>
       data ! 10 \<noteq> 0x51 \<and> data ! 10 \<noteq> 0x50 \<and> data ! 10 \<noteq> 0x61 \<and> data ! 10 \<noteq> 0x60 \<and>
       data ! 10 \<noteq> 0x91 \<and> data ! 10 \<noteq> 0x90 \<and> data ! 10 \<noteq> 0x25 \<and> data ! 10 \<noteq> 0x30 \<and>
       data ! 10 \<noteq> 0x31 \<longrightarrow>
         fst (main_report data s w) = Inr (Some (UNKNOWN (data ! 10) (data ! 11))))"
    if len: "12 \<le> length data" and rid: "data ! 0 = 0x04"
  proof (intro conjI impI allI; (elim conjE)?)
    show "snd (main_report data s w) = (s, w)"
      by (simp add: main_report_04 [OF len rid])
  next
    fix slot
    assume idx: "index_of BUTTON_ID_MAP (unat (data ! 10)) = Some slot"
    from index_of_Some [OF idx]
    have sl: "slot < 6" and m: "BUTTON_ID_MAP ! slot = unat (data ! 10)"
      by (simp_all add: BUTTON_ID_MAP_def)
    show "slot < 6" by (rule sl)
    from sl m show "map_button_for_image (int slot) = Inr (unat (data ! 10))"
      by (simp add: map_button_for_image_def subscript_def BUTTON_ID_MAP_def)
    from idx show "fst (main_report data s w) =
           Inr (if data ! 11 = 1 then Some (BUTTON slot True)
                else if data ! 11 = 0 then Some (BUTTON slot False)
                else None)"
      by (simp add: main_report_04 [OF len rid])
  qed (simp_all add: main_report_04 [OF len rid] BUTTON_ID_MAP_def)
  show ?thesis
  proof (intro conjI)
    show "12 \<le> length data \<and> data ! 0 = 0x04 \<longrightarrow>
      snd (main_report data s w) = (s, w) \<and>
      (\<forall>slot. index_of BUTTON_ID_MAP (unat (data ! 10)) = Some slot \<longrightarrow>
         slot < 6 \<and> map_button_for_image (int slot) = Inr (unat (data ! 10)) \<and>
         fst (main_report data s w) =
           Inr (if data ! 11 = 1 then Some (BUTTON slot True)
                else if data ! 11 = 0 then Some (BUTTON slot False)
                else None)) \<and>
      (data ! 10 = 0x51 \<longrightarrow> fst (main_report data s w) = Inr (Some (KNOB_TURN 1 True))) \<and>
      (data ! 10 = 0x50 \<longrightarrow> fst (main_report data s w) = Inr (Some (KNOB_TURN 1 False))) \<and>
      (data ! 10 = 0x61 \<longrightarrow> fst (main_report data s w) = Inr (Some (KNOB_TURN 2 True))) \<and>
      (data ! 10 = 0x60 \<longrightarrow> fst (main_report data s w) = Inr (Some (KNOB_TURN 2 False))) \<and>
      (data ! 10 = 0x91 \<longrightarrow> fst (main_report data s w) = Inr (Some (KNOB_TURN 3 True))) \<and>
      (data ! 10 = 0x90 \<longrightarrow> fst (main_report data s w) = Inr (Some (KNOB_TURN 3 False))) \<and>
      (data ! 10 = 0x25 \<longrightarrow> fst (main_report data s w) = Inr (Some (KNOB_PRESSED 1))) \<and>
      (data ! 10 = 0x30 \<longrightarrow> fst (main_report data s w) = Inr (Some (KNOB_PRESSED 2))) \<and>
      (data ! 10 = 0x31 \<longrightarrow> fst (main_report data s w) = Inr (Some (KNOB_PRESSED 3))) \<and>
      (index_of BUTTON_ID_MAP (unat (data ! 10)) = None \<and>
       data ! 10 \<noteq> 0x51 \<and> data ! 10 \<noteq> 0x50 \<and> data ! 10 \<noteq> 0x61 \<and> data ! 10 \<noteq> 0x60 \<and>
       data ! 10 \<noteq> 0x91 \<and> data ! 10 \<noteq> 0x90 \<and> data ! 10 \<noteq> 0x25 \<and> data ! 10 \<noteq> 0x30 \<and>
       data ! 10 \<noteq> 0x31 \<longrightarrow>
         fst (main_report data s w) = Inr (Some (UNKNOWN (data ! 10) (data ! 11))))"
    proof (rule impI, elim conjE)
      assume "12 \<le> length data" "data ! 0 = 0x04"
      then show "snd (main_report data s w) = (s, w) \<and>
      (\<forall>slot. index_of BUTTON_ID_MAP (unat (data ! 10)) = Some slot \<longrightarrow>
         slot < 6 \<and> map_button_for_image (int slot) = Inr (unat (data ! 10)) \<and>
         fst (main_report data s w) =
           Inr (if data ! 11 = 1 then Some (BUTTON slot True)
                else if data ! 11 = 0 then Some (BUTTON slot False)
                else None)) \<and>
      (data ! 10 = 0x51 \<longrightarrow> fst (main_report data s w) = Inr (Some (KNOB_TURN 1 True))) \<and>
      (data ! 10 = 0x50 \<longrightarrow> fst (main_report data s w) = Inr (Some (KNOB_TURN 1 False))) \<and>
      (data ! 10 = 0x61 \<longrightarrow> fst (main_report data s w) = Inr (Some (KNOB_TURN 2 True))) \<and>
      (data ! 10 = 0x60 \<longrightarrow> fst (main_report data s w) = Inr (Some (KNOB_TURN 2 False))) \<and>
      (data ! 10 = 0x91 \<longrightarrow> fst (main_report data s w) = Inr (Some (KNOB_TURN 3 True))) \<and>
      (data ! 10 = 0x90 \<longrightarrow> fst (main_report data s w) = Inr (Some (KNOB_TURN 3 False))) \<and>
      (data ! 10 = 0x25 \<longrightarrow> fst (main_report data s w) = Inr (Some (KNOB_PRESSED 1))) \<and>
      (data ! 10 = 0x30 \<longrightarrow> fst (main_report data s w) = Inr (Some (KNOB_PRESSED 2))) \<and>
      (data ! 10 = 0x31 \<longrightarrow> fst (main_report data s w) = Inr (Some (KNOB_PRESSED 3))) \<and>
      (index_of BUTTON_ID_MAP (unat (data ! 10)) = None \<and>
       data ! 10 \<noteq> 0x51 \<and> data ! 10 \<noteq> 0x50 \<and> data ! 10 \<noteq> 0x61 \<and> data ! 10 \<noteq> 0x60 \<and>
       data ! 10 \<noteq> 0x91 \<and> data ! 10 \<noteq> 0x90 \<and> data ! 10 \<noteq> 0x25 \<and> data ! 10 \<noteq> 0x30 \<and>
       data ! 10 \<noteq> 0x31 \<longrightarrow>
         fst (main_report data s w) = Inr (Some (UNKNOWN (data ! 10) (data ! 11))))"
        by (rule four)
    qed
    show "2 \<le> length data \<and> data ! 0 = 0x01 \<and> data ! 1 = 0 \<longrightarrow>
      main_report data s w =
        (case refresh_images s w of
           (Inl e, s', w') \<Rightarrow> (Inr (Some RELEASE), s', emit (Printed RefreshFailed) w')
         | (Inr u, s', w') \<Rightarrow> (Inr (Some RELEASE), s', w'))"
      using main_report_01_release [of data s w] by (intro impI) (elim conjE)
    show "2 \<le> length data \<and> data ! 0 = 0x01 \<and> data ! 1 \<noteq> 0 \<longrightarrow>
      main_report data s w = (Inr (Some (PRESS (data ! 1))), s, w)"
      using main_report_01_press [of data s w] by (intro impI) (elim conjE)
    show "2 \<le> length data \<and> data ! 0 \<noteq> 0x04 \<and> data ! 0 \<noteq> 0x01 \<longrightarrow>
      main_report data s w = (Inr (Some (RPT (data ! 0))), s, w)"
      using main_report_other [of data s w] by (intro impI) (elim conjE)
    show "length data < 2 \<longrightarrow> main_report data s w = (Inr None, s, w)"
      by (intro impI) (rule main_report_short)
    show "fst (main_report data s w) = Inr (Some RELEASE) \<longleftrightarrow>
      2 \<le> length data \<and> data ! 0 = 0x01 \<and> data ! 1 = 0"
      by (rule main_report_release_iff)
    show "\<not> (2 \<le> length data \<and> data ! 0 = 0x01 \<and> data ! 1 = 0) \<longrightarrow>
      snd (main_report data s w) = (s, w)"
      by (intro impI) (rule main_report_quiet)
  qed
qed

lemma refresh_cached_deck:
  "refresh_images cached_deck accepting =
     (Inr (), cached_deck,
      \<lparr>interfaces = [], open_results = [], write_results = [],
       trace = [Acquire, Opened ''ctl'',
                Written (report_packet (BAT_PREFIX @ [0, 2, 5])),
                Written (report_packet [1, 2]),
                Written (report_packet STP_COMMAND), Closed, Release]\<rparr>)"
  by (simp add: refresh_images_def with_control_def open_control_known cached_deck_def
      accepting_def map_button_values send_jpeg_to_button_def bat_header_bytes
      write_report_def device_write_def emit_def jpeg_chunks_short)

lemma refresh_cached_deck_fails:
  "refresh_images cached_deck first_write_fails =
     (Inl TransportError, cached_deck,
      \<lparr>interfaces = [], open_results = [], write_results = [],
       trace = [Acquire, Opened ''ctl'',
                WriteFailed (report_packet (BAT_PREFIX @ [0, 2, 5])), Closed, Release]\<rparr>)"
  by (simp add: refresh_images_def with_control_def open_control_known cached_deck_def
      first_write_fails_def map_button_values send_jpeg_to_button_def bat_header_bytes
      write_report_def device_write_def emit_def)

theorem main_report_classification_witness:
  "main_report [0x04, 0x41, 0x43, 0x4b, 0, 0, 0x4f, 0x4b, 0, 0, 0x05, 1] cached_deck accepting =
     (Inr (Some (BUTTON 0 True)), cached_deck, accepting) \<and>
   main_report [0x04, 0x41, 0x43, 0x4b, 0, 0, 0x4f, 0x4b, 0, 0, 0x51, 0] cached_deck accepting =
     (Inr (Some (KNOB_TURN 1 True)), cached_deck, accepting) \<and>
   main_report [0x01, 0x00] cached_deck accepting =
     (Inr (Some RELEASE), cached_deck,
      \<lparr>interfaces = [], open_results = [], write_results = [],
       trace = [Acquire, Opened ''ctl'',
                Written (report_packet (BAT_PREFIX @ [0, 2, 5])),
                Written (report_packet [1, 2]),
                Written (report_packet STP_COMMAND), Closed, Release]\<rparr>) \<and>
   main_report [0x01, 0x00] cached_deck first_write_fails =
     (Inr (Some RELEASE), cached_deck,
      \<lparr>interfaces = [], open_results = [], write_results = [],
       trace = [Acquire, Opened ''ctl'',
                WriteFailed (report_packet (BAT_PREFIX @ [0, 2, 5])), Closed, Release,
                Printed RefreshFailed]\<rparr>) \<and>
   main_report [0x01, 0x1e] cached_deck accepting =
     (Inr (Some (PRESS 0x1e)), cached_deck, accepting)"
proof -
  have a: "main_report [0x04, 0x41, 0x43, 0x4b, 0, 0, 0x4f, 0x4b, 0, 0, 0x05, 1] cached_deck accepting =
     (Inr (Some (BUTTON 0 True)), cached_deck, accepting)"
    using main_report_classification
      [of "[0x04, 0x41, 0x43, 0x4b, 0, 0, 0x4f, 0x4b, 0, 0, 0x05, 1]" cached_deck accepting]
    by (simp add: BUTTON_ID_MAP_def prod_eq_iff)
  have b: "main_report [0x04, 0x41, 0x43, 0x4b, 0, 0, 0x4f, 0x4b, 0, 0, 0x51, 0] cached_deck accepting =
     (Inr (Some (KNOB_TURN 1 True)), cached_deck, accepting)"
    using main_report_classification
      [of "[0x04, 0x41, 0x43, 0x4b, 0, 0, 0x4f, 0x4b, 0, 0, 0x51, 0]" cached_deck accepting]
    by (simp add: BUTTON_ID_MAP_def prod_eq_iff)
  have c: "main_report [0x01, 0x00] cached_deck accepting =
     (Inr (Some RELEASE), cached_deck,
      \<lparr>interfaces = [], open_results = [], write_results = [],
       trace = [Acquire, Opened ''ctl'',
                Written (report_packet (BAT_PREFIX @ [0, 2, 5])),
                Written (report_packet [1, 2]),
                Written (report_packet STP_COMMAND), Closed, Release]\<rparr>)"
    using main_report_classification [of "[0x01, 0x00]" cached_deck accepting]
    by (simp add: refresh_cached_deck)
  have d: "main_report [0x01, 0x00] cached_deck first_write_fails =
     (Inr (Some RELEASE), cached_deck,
      \<lparr>interfaces = [], open_results = [], write_results = [],
       trace = [Acquire, Opened ''ctl'',
                WriteFailed (report_packet (BAT_PREFIX @ [0, 2, 5])), Closed, Release,
                Printed RefreshFailed]\<rparr>)"
    using main_report_classification [of "[0x01, 0x00]" cached_deck first_write_fails]
    by (simp add: refresh_cached_deck_fails emit_def)
  have e: "main_report [0x01, 0x1e] cached_deck accepting =
     (Inr (Some (PRESS 0x1e)), cached_deck, accepting)"
    using main_report_classification [of "[0x01, 0x1e]" cached_deck accepting]
    by simp
  from a b c d e show ?thesis by blast
qed

text \<open>
  C3 as stated fails on a button report whose state byte is 2: the loop reports
  nothing, where the claim has a button event with pressed false; and
  \<open>read_button_event\<close> returns the report ID 4 as its first component, not the slot.
\<close>

theorem read_event_counterexample:
  "fst (main_report [0x04, 0x41, 0x43, 0x4b, 0, 0, 0x4f, 0x4b, 0, 0, 0x05, 2] cached_deck accepting) =
     Inr None \<and>
   read_button_event [0x04, 0x41, 0x43, 0x4b, 0, 0, 0x4f, 0x4b, 0, 0, 0x05, 2] = Some (4, False)"
  by (simp add: main_report_def read_button_event_def subscript_def BUTTON_ID_MAP_def)


end
